theory Spec2Isabelle
  imports Complex_Main "HOL-Library.Log_Nat"
begin

section \<open>Numbers, dictionaries and messages\<close>

text \<open>
  The pipeline computes with JavaScript numbers. The validation, the allocation, the
  administered dose and the forecast are modelled on exact reals. The vial rounding and
  the dispensed dose compare quantities that differ by the rounding of IEEE doubles, so
  they are modelled on doubles (see below); their arguments are taken as given, and are
  doubles in the program. The value \<open>NaN\<close> is
  represented where the code tests for it (share values, rates and populations are
  checked with \<open>isNaN\<close>). An operation whose JavaScript result is \<open>Infinity\<close> or
  \<open>NaN\<close> (a division by zero, the square root of a negative number) is never
  replaced by HOL's total operation: the model says so explicitly.
\<close>

datatype number = NaN | Num real

text \<open>
  A \<open>Record<string, number>\<close> is the list of its entries in iteration order;
  \<open>shares[key]\<close> is \<open>map_of shares key\<close>, and \<open>undefined\<close> is \<open>None\<close>.
\<close>

type_synonym 'v dict = "(string \<times> 'v) list"

text \<open>The number read from a share value that has passed the \<open>isNaN\<close> test.\<close>

fun num_value :: "number \<Rightarrow> real" where
  "num_value (Num r) = r"
| "num_value NaN = 0"

text \<open>
  \<open>value / sum\<close> in the renormalization loops. There every value lies in \<open>[0, 1]\<close>, so the
  divisor is zero only when the dividend is zero as well, and \<open>0 / 0\<close> is \<open>NaN\<close>.
\<close>

definition share_div :: "real \<Rightarrow> real \<Rightarrow> number" where
  "share_div v s = (if s = 0 then NaN else Num (v / s))"

text \<open>
  Error and warning texts are template strings. Each template is a constructor that
  carries the values interpolated into it, in the order of the template:
  \<open>ShareRenormalized d s\<close> is \<open>`${d} shares summed to ${s.toFixed(4)}, renormalized to 1.0`\<close>.
\<close>

datatype message =
    RateNotNumber string
  | RateNegative string real
  | RateExceeds string real
  | SharesEmpty string
  | ShareNotNumber string string
  | ShareNegative string string real
  | ShareExceeds string string real
  | ShareRenormalized string real
  | SharesMustSum string real real
  | SharesPatientLoss string real
  | PopulationNotNumber string
  | PopulationNegative string real
  | PopulationExceedsMax string real real
  | PopulationVeryLarge string real
  | NoPrevalenceProvided
  | NoIncidenceProvided
  | NoBasePopulation
  | EqualDimensionShares string real
  | ConservationCheck real real
  | RegimenRenormalizedNote real string
  | RegimenEqualSplitNote nat real
  | MonthsOnTreatmentNote real

text \<open>
  What a call does: it returns a value, it throws, or it never returns. \<open>NotFinite\<close> says
  that an intermediate value is \<open>Infinity\<close> or \<open>NaN\<close>: the program goes on computing with
  it, and the model does not follow the run from there.
\<close>

datatype error =
    ValidationFailed string "message list"
  | NoRegimenSharesForPath string
  | TypeError

datatype 'a outcome = Returns 'a | Throws error | NotFinite | Diverges

fun obind :: "'a outcome \<Rightarrow> ('a \<Rightarrow> 'b outcome) \<Rightarrow> 'b outcome" where
  "obind (Returns x) f = f x"
| "obind (Throws e) f = Throws e"
| "obind NotFinite f = NotFinite"
| "obind Diverges f = Diverges"

text \<open>A loop that appends what each iteration produces; the first failure ends it.\<close>

fun collect :: "('a \<Rightarrow> 'b list outcome) \<Rightarrow> 'a list \<Rightarrow> 'b list outcome" where
  "collect f [] = Returns []"
| "collect f (x # xs) =
     obind (f x) (\<lambda>ys. obind (collect f xs) (\<lambda>zs. Returns (ys @ zs)))"

text \<open>\<open>a / b\<close> and \<open>Math.sqrt\<close>, \<open>Math.round\<close> on finite numbers.\<close>

definition js_div :: "real \<Rightarrow> real \<Rightarrow> real outcome" where
  "js_div a b = (if b = 0 then NotFinite else Returns (a / b))"

definition js_sqrt :: "real \<Rightarrow> real outcome" where
  "js_sqrt x = (if x < 0 then NotFinite else Returns (sqrt x))"

definition js_round :: "real \<Rightarrow> real" where
  "js_round x = of_int \<lfloor>x + 1/2\<rfloor>"

text \<open>
  Doubles. Where a result depends on the rounding of IEEE 754 arithmetic (the vial
  rounding loop and the dispensed dose) each operation is the exact operation followed by
  \<open>fl\<close>, rounding to the nearest double with ties to even: a double is an integer multiple
  of \<open>2 ^ (e - 52)\<close>, where \<open>2 ^ e\<close> is the power of two at or below the magnitude and \<open>e\<close>
  is at least \<open>-1022\<close> (below that the spacing stays \<open>2 ^ -1074\<close>). A rounded result of
  magnitude \<open>2 ^ 1024\<close> or more is \<open>Infinity\<close>, the outcome \<open>NotFinite\<close>.
\<close>

definition pow2 :: "int \<Rightarrow> real" where
  "pow2 e = (if 0 \<le> e then 2 ^ nat e else 1 / 2 ^ nat (- e))"

definition round_even :: "real \<Rightarrow> int" where
  "round_even x =
     (let n = \<lfloor>x\<rfloor>; d = x - of_int n in
      if d < 1/2 then n else if 1/2 < d then n + 1 else if even n then n else n + 1)"

text \<open>The exponent \<open>e\<close> with \<open>2 ^ e \<le> \<bar>x\<bar> < 2 ^ (e + 1)\<close>, for \<open>x \<noteq> 0\<close>.\<close>

definition binade :: "real \<Rightarrow> int" where
  "binade x =
     (if 1 \<le> \<bar>x\<bar> then bitlen \<lfloor>\<bar>x\<bar>\<rfloor> - 1 else - bitlen (\<lceil>1 / \<bar>x\<bar>\<rceil> - 1))"

definition fl :: "real \<Rightarrow> real" where
  "fl x =
     (if x = 0 then 0
      else (let q = pow2 (max (binade x) (- 1022) - 52) in of_int (round_even (x / q)) * q))"

definition double_result :: "real \<Rightarrow> real outcome" where
  "double_result x = (if \<bar>x\<bar> < 2 ^ 1024 then Returns x else NotFinite)"

text \<open>\<open>a + b\<close>, \<open>a * b\<close> and \<open>a / b\<close> on doubles.\<close>

definition double_add :: "real \<Rightarrow> real \<Rightarrow> real outcome" where
  "double_add a b = double_result (fl (a + b))"

definition double_mul :: "real \<Rightarrow> real \<Rightarrow> real outcome" where
  "double_mul a b = double_result (fl (a * b))"

definition double_div :: "real \<Rightarrow> real \<Rightarrow> real outcome" where
  "double_div a b = (if b = 0 then NotFinite else double_result (fl (a / b)))"

text \<open>
  Truthiness of an optional string (\<open>null\<close> and the empty string are falsy) and of an
  optional number (\<open>undefined\<close>, \<open>0\<close> and \<open>NaN\<close> are falsy).
\<close>

fun truthy :: "string option \<Rightarrow> bool" where
  "truthy None = False"
| "truthy (Some s) = (s \<noteq> [])"

fun truthy_num :: "number option \<Rightarrow> bool" where
  "truthy_num (Some (Num r)) = (r \<noteq> 0)"
| "truthy_num (Some NaN) = False"
| "truthy_num None = False"

text \<open>\<open>x || 0\<close> on an optional number.\<close>

fun or_zero :: "number option \<Rightarrow> real" where
  "or_zero (Some (Num r)) = r"
| "or_zero (Some NaN) = 0"
| "or_zero None = 0"

text \<open>
  \<open>String.prototype.toLowerCase\<close> and \<open>String.prototype.includes\<close>. A character is a
  byte, and only the letters \<open>A\<close> to \<open>Z\<close> are folded: unit texts and notes are taken to be
  ASCII.
\<close>

definition lower_char :: "char \<Rightarrow> char" where
  "lower_char c =
     (if 65 \<le> (of_char c :: nat) \<and> (of_char c :: nat) \<le> 90
      then char_of ((of_char c :: nat) + 32) else c)"

definition toLowerCase :: "string \<Rightarrow> string" where
  "toLowerCase s = map lower_char s"

fun includes_str :: "string \<Rightarrow> string \<Rightarrow> bool" where
  "includes_str [] p = (p = [])"
| "includes_str (c # cs) p = (take (length p) (c # cs) = p \<or> includes_str cs p)"

text \<open>
  A \<open>Set\<close> of strings is the list of its members in insertion order;
  \<open>Map.prototype.set\<close> on an entry list replaces in place or appends.
\<close>

definition set_add :: "'a list \<Rightarrow> 'a \<Rightarrow> 'a list" where
  "set_add xs x = (if x \<in> set xs then xs else xs @ [x])"

fun map_set :: "'k \<Rightarrow> 'v \<Rightarrow> ('k \<times> 'v) list \<Rightarrow> ('k \<times> 'v) list" where
  "map_set k v [] = [(k, v)]"
| "map_set k v (e # es) = (if fst e = k then (k, v) # es else e # map_set k v es)"

section \<open>Share validation (validation.ts)\<close>

record ValidationConfig =
  allow_share_renormalization :: bool
  allow_equal_regimen_split :: bool
  share_sum_tolerance :: real
  max_renormalization_deviation :: real
  max_population :: "real option"

definition DEFAULT_VALIDATION_CONFIG :: ValidationConfig where
  "DEFAULT_VALIDATION_CONFIG =
     \<lparr>allow_share_renormalization = True, allow_equal_regimen_split = True,
      share_sum_tolerance = 5/100, max_renormalization_deviation = 15/100,
      max_population = Some 350000000\<rparr>"

record ValidationResult =
  valid :: bool
  errors :: "message list"
  warnings :: "message list"
  normalized_value :: "number dict option"

record ShareValidationTrace =
  original_shares :: "number dict"
  original_sum :: real
  normalized_shares :: "number dict"
  normalized :: bool
  warning :: "message option"

definition validateRate :: "number \<Rightarrow> string \<Rightarrow> ValidationResult" where
  "validateRate rate name =
     (case rate of
        NaN \<Rightarrow> \<lparr>valid = False, errors = [RateNotNumber name], warnings = [],
                 normalized_value = None\<rparr>
      | Num r \<Rightarrow>
          if r < 0 then \<lparr>valid = False, errors = [RateNegative name r], warnings = [],
                          normalized_value = None\<rparr>
          else if r > 1 then \<lparr>valid = False, errors = [RateExceeds name r], warnings = [],
                               normalized_value = None\<rparr>
          else \<lparr>valid = True, errors = [], warnings = [], normalized_value = None\<rparr>)"

text \<open>The body of the loop over \<open>Object.entries(shares)\<close>: the errors one entry adds.\<close>

fun share_errors :: "string \<Rightarrow> string \<times> number \<Rightarrow> message list" where
  "share_errors d (k, NaN) = [ShareNotNumber d k]"
| "share_errors d (k, Num r) =
     (if r < 0 then [ShareNegative d k r] else []) @ (if r > 1 then [ShareExceeds d k r] else [])"

text \<open>\<open>Object.values(shares).reduce((a, b) => a + b, 0)\<close>, read once every value is a number.\<close>

definition share_total :: "number dict \<Rightarrow> real" where
  "share_total shares = sum_list (map (\<lambda>e. num_value (snd e)) shares)"

definition renormalize :: "number dict \<Rightarrow> real \<Rightarrow> number dict" where
  "renormalize shares s = map (\<lambda>e. (fst e, share_div (num_value (snd e)) s)) shares"

definition validateShares ::
  "number dict \<Rightarrow> string \<Rightarrow> 'a ValidationConfig_scheme \<Rightarrow> ValidationResult \<times> ShareValidationTrace"
where
  "validateShares shares dimension_name config =
     (let trace0 = \<lparr>original_shares = shares, original_sum = 0, normalized_shares = [],
                     normalized = False, warning = None\<rparr>;
          errs = concat (map (share_errors dimension_name) shares);
          s = share_total shares;
          deviation = \<bar>s - 1\<bar>;
          trace1 = trace0\<lparr>original_sum := s\<rparr>;
          w = ShareRenormalized dimension_name s
      in
      if shares = [] then
        (\<lparr>valid = False, errors = [SharesEmpty dimension_name], warnings = [],
          normalized_value = None\<rparr>, trace0)
      else if errs \<noteq> [] then
        (\<lparr>valid = False, errors = errs, warnings = [], normalized_value = None\<rparr>, trace0)
      else if deviation > share_sum_tolerance config then
        (if s > 1 then
           (if allow_share_renormalization config
               \<and> deviation \<le> max_renormalization_deviation config then
              (\<lparr>valid = True, errors = [], warnings = [w],
                normalized_value = Some (renormalize shares s)\<rparr>,
               trace1\<lparr>normalized_shares := renormalize shares s, normalized := True,
                      warning := Some w\<rparr>)
            else
              (\<lparr>valid = False,
                errors = [SharesMustSum dimension_name (share_sum_tolerance config) s],
                warnings = [], normalized_value = None\<rparr>, trace1))
         else
           (if deviation > max_renormalization_deviation config then
              (\<lparr>valid = True, errors = [], warnings = [SharesPatientLoss dimension_name s],
                normalized_value = Some shares\<rparr>,
               trace1\<lparr>normalized_shares := shares\<rparr>)
            else if allow_share_renormalization config then
              (\<lparr>valid = True, errors = [], warnings = [w],
                normalized_value = Some (renormalize shares s)\<rparr>,
               trace1\<lparr>normalized_shares := renormalize shares s, normalized := True,
                      warning := Some w\<rparr>)
            else
              (\<lparr>valid = True, errors = [], warnings = [], normalized_value = Some shares\<rparr>,
               trace1\<lparr>normalized_shares := shares\<rparr>)))
      else
        (\<lparr>valid = True, errors = [], warnings = [], normalized_value = Some shares\<rparr>,
         trace1\<lparr>normalized_shares := shares\<rparr>))"

definition validatePopulation ::
  "number \<Rightarrow> string \<Rightarrow> 'a ValidationConfig_scheme \<Rightarrow> ValidationResult"
where
  "validatePopulation population name config =
     (case population of
        NaN \<Rightarrow> \<lparr>valid = False, errors = [PopulationNotNumber name], warnings = [],
                 normalized_value = None\<rparr>
      | Num p \<Rightarrow>
          (let e1 = (if p < 0 then [PopulationNegative name p] else []);
               e2 = (case max_population config of
                       None \<Rightarrow> []
                     | Some m \<Rightarrow> if m \<noteq> 0 \<and> p > m then [PopulationExceedsMax name p m] else []);
               ws = (if p > 100000000 then [PopulationVeryLarge name p] else [])
           in \<lparr>valid = (e1 @ e2 = []), errors = e1 @ e2, warnings = ws,
               normalized_value = None\<rparr>))"

section \<open>Domain types (types.ts)\<close>

text \<open>
  Only the fields the allocation, dose and forecast code reads are kept. The dimension keys
  of a node, of a path and of a cohort are one record, extended by what each carries.
  \<open>dose_type\<close>, \<open>dose_value\<close>, \<open>dose_unit\<close> and \<open>dose_notes\<close> stand for the fields \<open>type\<close>,
  \<open>value\<close>, \<open>unit\<close> and \<open>notes\<close>.
\<close>

datatype dose_kind = mg_per_kg | fixed_mg | mg_per_m2 | other

record Dose =
  dose_value :: real
  dose_unit :: string

record LoadingDose = Dose +
  repeats :: "real option"

record DoseSchema =
  dose_type :: dose_kind
  loading :: "LoadingDose option"
  maintenance :: Dose
  interval_days :: real
  dose_notes :: "string option"

datatype route_kind = IV | SC | PO | IM | other_route

record DimensionPath =
  subtype_key :: "string option"
  setting_key :: "string option"
  line_key :: "string option"

record RegimenPath = DimensionPath +
  regimen_key :: string

record TreatmentNode = RegimenPath +
  node_id :: string
  route :: route_kind
  dose_schema :: DoseSchema

record TreatmentMap =
  nodes :: "TreatmentNode list"

record VialSize =
  size_mg :: real
  is_single_dose :: bool

datatype avg_weight = Weight real | WeightMeanSd real real

record ScenarioParameters =
  incidence_cagr :: real
  treated_rate_multiplier :: real
  tot_multiplier :: real
  adoption_multiplier :: real

record Assumptions =
  base_year :: real
  horizon_years :: real
  avg_weight_kg :: avg_weight
  vial_sizes :: "(route_kind \<times> VialSize list) list"
  incidence :: "number option"
  prevalence :: "number option"
  subtype_shares :: "number dict option"
  stage_shares :: "number dict option"
  setting_shares :: "number dict option"
  treated_rate :: number
  line_shares :: "number dict option"
  time_on_treatment_months :: "real dict option"
  relative_dose_intensity :: "real option"
  scenarios :: "ScenarioParameters dict option"

record PopulationNode =
  pop_node_id :: string
  eligible_patients :: real
  treated_patients :: real
  patient_years :: real

record DemandNode =
  demand_node_id :: string
  demand_treated_patients :: real
  administered_mg_per_patient_year :: real
  dispensed_mg_per_patient_year :: real
  total_administered_mg :: real
  total_dispensed_mg :: real


section \<open>Dose and exposure (exposure.ts)\<close>

text \<open>
  The regular expressions of \<open>extractMaintenanceIntervalFromNotes\<close> are matched by the
  JavaScript engine, which is not code of this repository. Each field below is one
  \<open>notes_lower.match(pattern)\<close>: \<open>None\<close> when the pattern does not match, and otherwise the
  capture groups the function reads, the \<open>\d+\<close> groups already through \<open>parseInt\<close>.
\<close>

record NotesPatterns =
  maintenance_pattern :: "string \<Rightarrow> (nat \<times> string) option"
  then_every_pattern :: "string \<Rightarrow> (nat \<times> string) option"
  every_pattern :: "string \<Rightarrow> (nat \<times> string) option"
  q_pattern :: "string \<Rightarrow> (nat \<times> string) option"
  cycle_pattern :: "string \<Rightarrow> nat option"
  cycle_pattern_3 :: "string \<Rightarrow> nat option"

definition convertTodays :: "real \<Rightarrow> string \<Rightarrow> real option" where
  "convertTodays v u =
     (let l = toLowerCase u in
      if l = ''day'' \<or> l = ''days'' then Some v
      else if l = ''week'' \<or> l = ''weeks'' then Some (v * 7)
      else if l = ''month'' \<or> l = ''months'' then Some (v * 30)
      else None)"

text \<open>\<open>interval && Math.abs(interval - declared_interval) > 7\<close>\<close>

definition diverges_from :: "real option \<Rightarrow> real \<Rightarrow> bool" where
  "diverges_from interval declared_interval =
     (case interval of None \<Rightarrow> False | Some i \<Rightarrow> i \<noteq> 0 \<and> \<bar>i - declared_interval\<bar> > 7)"

definition q_unit :: "string \<Rightarrow> string" where
  "q_unit unit_char =
     (if toLowerCase unit_char = ''m'' then ''month''
      else if toLowerCase unit_char = ''w'' then ''week'' else ''day'')"

definition extractMaintenanceIntervalFromNotes ::
  "NotesPatterns \<Rightarrow> string option \<Rightarrow> real \<Rightarrow> real"
where
  "extractMaintenanceIntervalFromNotes rx notes_opt declared_interval =
     (if \<not> truthy notes_opt then declared_interval
      else
        let notes_lower = toLowerCase (the notes_opt);
            m1 = (case maintenance_pattern rx notes_lower of
                    None \<Rightarrow> None | Some (v, u) \<Rightarrow> convertTodays (real v) u);
            has_loading_mention =
              (includes_str notes_lower ''loading'' \<or> includes_str notes_lower ''initial''
               \<or> includes_str notes_lower ''first month''
               \<or> includes_str notes_lower ''induction'');
            m2 = (case then_every_pattern rx notes_lower of
                    None \<Rightarrow> None | Some (v, u) \<Rightarrow> convertTodays (real v) u);
            m3 = (case every_pattern rx notes_lower of
                    None \<Rightarrow> None | Some (v, u) \<Rightarrow> convertTodays (real v) u);
            m4 = (case q_pattern rx notes_lower of
                    None \<Rightarrow> None | Some (v, c) \<Rightarrow> convertTodays (real v) (q_unit c));
            c2 = (case cycle_pattern rx notes_lower of
                    None \<Rightarrow> None | Some n \<Rightarrow> Some (real n / 2));
            c3 = (case cycle_pattern_3 rx notes_lower of
                    None \<Rightarrow> None | Some n \<Rightarrow> Some (real n / 3))
        in
        if diverges_from m1 declared_interval then the m1
        else if has_loading_mention \<and> diverges_from m2 declared_interval then the m2
        else if has_loading_mention \<and> m3 \<noteq> None \<and> the m3 \<noteq> 0 \<and> the m3 > 60
                \<and> declared_interval < 28 then the m3
        else if has_loading_mention \<and> diverges_from m4 declared_interval then the m4
        else if c2 \<noteq> None \<and> \<bar>the c2 - declared_interval\<bar> > 1 then the c2
        else if c3 \<noteq> None \<and> \<bar>the c3 - declared_interval\<bar> > 1 then the c3
        else declared_interval)"

text \<open>\<open>assumptions.avg_weight_kg\<close>, a number or an object with a mean.\<close>

fun weight_kg_of :: "avg_weight \<Rightarrow> real" where
  "weight_kg_of (Weight w) = w"
| "weight_kg_of (WeightMeanSd m sd) = m"

text \<open>The correction of a dose type that disagrees with the maintenance unit.\<close>

definition effective_type :: "dose_kind \<Rightarrow> string \<Rightarrow> dose_kind" where
  "effective_type t u =
     (if t = fixed_mg \<and> includes_str u ''kg'' then mg_per_kg
      else if t = fixed_mg \<and> includes_str u ''m2'' then mg_per_m2
      else if t = mg_per_kg \<and> \<not> includes_str u ''kg'' then fixed_mg
      else if t = mg_per_m2 \<and> \<not> includes_str u ''m2'' then fixed_mg
      else t)"

text \<open>\<open>Math.sqrt((170 * weight_kg) / 3600)\<close>\<close>

definition bsa_m2 :: "real \<Rightarrow> real outcome" where
  "bsa_m2 weight_kg = js_sqrt ((170 * weight_kg) / 3600)"

definition dose_per_admin_mg :: "dose_kind \<Rightarrow> real \<Rightarrow> real \<Rightarrow> real outcome" where
  "dose_per_admin_mg t v weight_kg =
     (case t of
        mg_per_kg \<Rightarrow> Returns (v * weight_kg)
      | fixed_mg \<Rightarrow> Returns v
      | mg_per_m2 \<Rightarrow> obind (bsa_m2 weight_kg) (\<lambda>b. Returns (v * b))
      | other \<Rightarrow> Returns v)"

text \<open>The loading contribution: zero unless a loading dose with \<open>repeats > 0\<close> is given.\<close>

definition loading_dose_mg :: "LoadingDose option \<Rightarrow> real \<Rightarrow> real outcome" where
  "loading_dose_mg l weight_kg =
     (case l of
        None \<Rightarrow> Returns 0
      | Some ld \<Rightarrow>
          (case repeats ld of
             None \<Rightarrow> Returns 0
           | Some n \<Rightarrow>
               if n > 0 then
                 (let loading_unit = toLowerCase (dose_unit ld) in
                  obind
                    (if includes_str loading_unit ''kg'' then Returns (dose_value ld * weight_kg)
                     else if includes_str loading_unit ''m2''
                     then obind (bsa_m2 weight_kg) (\<lambda>b. Returns (dose_value ld * b))
                     else Returns (dose_value ld))
                    (\<lambda>loading_per_admin. Returns (loading_per_admin * n)))
               else Returns 0))"

text \<open>\<open>assumptions.relative_dose_intensity || 1.0\<close>\<close>

fun rdi_of :: "real option \<Rightarrow> real" where
  "rdi_of None = 1"
| "rdi_of (Some r) = (if r = 0 then 1 else r)"

definition calculateAdministeredDose ::
  "NotesPatterns \<Rightarrow> TreatmentNode \<Rightarrow> Assumptions \<Rightarrow> real outcome"
where
  "calculateAdministeredDose rx treatment_node assumptions =
     (let ds = dose_schema treatment_node;
          rdi = rdi_of (relative_dose_intensity assumptions);
          interval = extractMaintenanceIntervalFromNotes rx (dose_notes ds) (interval_days ds);
          weight_kg = weight_kg_of (avg_weight_kg assumptions);
          u = toLowerCase (dose_unit (maintenance ds));
          t = effective_type (dose_type ds) u
      in
      obind (dose_per_admin_mg t (dose_value (maintenance ds)) weight_kg) (\<lambda>per_admin.
      obind (js_div 365 interval) (\<lambda>maintenance_admins_per_year.
      obind (loading_dose_mg (loading ds) weight_kg) (\<lambda>loading_mg.
        Returns ((loading_mg + per_admin * maintenance_admins_per_year) * rdi)))))"

text \<open>
  The inner \<open>while\<close> loop of \<open>roundToVials\<close> for one vial size, on doubles:
  \<open>total_dispensed += vial.size_mg; remaining_dose -= vial.size_mg\<close>. It returns the
  remaining dose and the total dispensed, or does not return. Subtracting a positive vial
  from a positive remaining dose cannot overflow, and with a vial that is not positive
  the loop does not return. The total only grows with a positive vial, so it has
  overflowed to \<open>Infinity\<close> exactly when the total returned is beyond the largest double,
  which \<open>roundToVials\<close> checks at the end.
\<close>

partial_function (option) add_vials :: "real \<Rightarrow> real \<Rightarrow> real \<Rightarrow> (real \<times> real) option" where
  "add_vials vial_mg remaining_dose total_dispensed =
     (if remaining_dose > 0 then
        (if fl (remaining_dose - vial_mg) \<le> 0
         then Some (fl (remaining_dose - vial_mg), fl (total_dispensed + vial_mg))
         else add_vials vial_mg (fl (remaining_dose - vial_mg)) (fl (total_dispensed + vial_mg)))
      else Some (remaining_dose, total_dispensed))"

text \<open>The \<open>for\<close> loop over the sorted vials, left as soon as nothing remains.\<close>

fun vials_loop :: "VialSize list \<Rightarrow> real \<Rightarrow> real \<Rightarrow> (real \<times> real) option" where
  "vials_loop [] remaining_dose total_dispensed = Some (remaining_dose, total_dispensed)"
| "vials_loop (v # vs) remaining_dose total_dispensed =
     (case add_vials (size_mg v) remaining_dose total_dispensed of
        None \<Rightarrow> None
      | Some (r, t) \<Rightarrow> if r \<le> 0 then Some (r, t) else vials_loop vs r t)"

text \<open>\<open>[...vial_sizes].sort((a, b) => b.size_mg - a.size_mg)\<close>: descending and stable.\<close>

definition sorted_vials :: "VialSize list \<Rightarrow> VialSize list" where
  "sorted_vials vs = sort_key (\<lambda>v. - size_mg v) vs"

definition roundToVials :: "real \<Rightarrow> VialSize list \<Rightarrow> real outcome" where
  "roundToVials required_dose_mg vs =
     (case vials_loop (sorted_vials vs) required_dose_mg 0 of
        None \<Rightarrow> Diverges
      | Some (remaining_dose, total_dispensed) \<Rightarrow>
          if remaining_dose > 0 then
            (if sorted_vials vs = [] then Throws TypeError
             else double_add total_dispensed (size_mg (last (sorted_vials vs))))
          else double_result total_dispensed)"

text \<open>\<open>dose_schema.loading?.repeats || 0\<close>\<close>

definition loading_admins_of :: "LoadingDose option \<Rightarrow> real" where
  "loading_admins_of l =
     (case l of None \<Rightarrow> 0 | Some ld \<Rightarrow> (case repeats ld of None \<Rightarrow> 0 | Some n \<Rightarrow> n))"

text \<open>
  \<open>calculateDispensedDose\<close>, on doubles: the administered dose is divided by the
  administrations per year, rounded up to vials, and multiplied back.
\<close>

definition calculateDispensedDose ::
  "NotesPatterns \<Rightarrow> TreatmentNode \<Rightarrow> Assumptions \<Rightarrow> real \<Rightarrow> real outcome"
where
  "calculateDispensedDose rx treatment_node assumptions administered_mg_ppy =
     (case map_of (vial_sizes assumptions) (route treatment_node) of
        None \<Rightarrow> Returns administered_mg_ppy
      | Some vs \<Rightarrow>
          if vs = [] then Returns administered_mg_ppy
          else
            (let ds = dose_schema treatment_node;
                 interval = extractMaintenanceIntervalFromNotes rx (dose_notes ds) (interval_days ds)
             in
             obind (double_div 365 interval) (\<lambda>maintenance_admins.
             obind (double_add maintenance_admins (loading_admins_of (loading ds)))
               (\<lambda>total_admins_per_year.
             obind (double_div administered_mg_ppy total_admins_per_year) (\<lambda>dose_per_admin_mg.
             obind (roundToVials dose_per_admin_mg vs) (\<lambda>dispensed_per_admin_mg.
               double_mul dispensed_per_admin_mg total_admins_per_year))))))"

text \<open>
  \<open>calculateDemand\<close>: one demand node per population node whose id names a treatment node.
\<close>

definition demand_node ::
  "NotesPatterns \<Rightarrow> TreatmentMap \<Rightarrow> Assumptions \<Rightarrow> PopulationNode \<Rightarrow> DemandNode list outcome"
where
  "demand_node rx treatment_map assumptions pop_node =
     (case find (\<lambda>n. node_id n = pop_node_id pop_node) (nodes treatment_map) of
        None \<Rightarrow> Returns []
      | Some treatment_node \<Rightarrow>
          obind (calculateAdministeredDose rx treatment_node assumptions) (\<lambda>administered_mg_ppy.
          obind (calculateDispensedDose rx treatment_node assumptions administered_mg_ppy)
            (\<lambda>dispensed_mg_ppy.
              Returns
                [\<lparr>demand_node_id = pop_node_id pop_node,
                  demand_treated_patients = js_round (treated_patients pop_node),
                  administered_mg_per_patient_year = js_round administered_mg_ppy,
                  dispensed_mg_per_patient_year = js_round dispensed_mg_ppy,
                  total_administered_mg = js_round (administered_mg_ppy * patient_years pop_node),
                  total_dispensed_mg = js_round (dispensed_mg_ppy * patient_years pop_node)\<rparr>])))"


section \<open>Cohort allocation (cohortAllocator.ts)\<close>

datatype population_model_kind = prevalence_based | incidence_based | auto

record CohortAllocationConfig = ValidationConfig +
  population_model :: population_model_kind
  regimen_shares :: "real dict option"

datatype base_pool_source_kind = from_prevalence | from_incidence

record AllocationTrace =
  step :: string
  input_population :: real
  share_applied :: "real option"
  share_key :: "string option"
  output_population :: real
  trace_normalized :: "bool option"
  trace_note :: "message option"

record LeafCohort =
  cohort_id :: string
  path :: RegimenPath
  patients :: real
  cohort_patient_years :: real
  trace :: "AllocationTrace list"

record ShareTraces =
  subtype_shares_trace :: "ShareValidationTrace option"
  setting_shares_trace :: "ShareValidationTrace option"
  line_shares_trace :: "ShareValidationTrace option"

record CohortAllocationResult =
  base_pool :: real
  base_pool_source :: base_pool_source_kind
  treated_pool :: real
  leaf_cohorts :: "LeafCohort list"
  total_allocated :: real
  share_traces :: ShareTraces
  conservation_ratio :: real
  allocation_warnings :: "message list"

record PathInfo = DimensionPath +
  regimen_keys :: "string list"

text \<open>\<open>key || '_'\<close>\<close>

definition key_or_underscore :: "string option \<Rightarrow> string" where
  "key_or_underscore k = (if truthy k then the k else ''_'')"

definition buildPathKey :: "string option \<Rightarrow> string option \<Rightarrow> string option \<Rightarrow> string" where
  "buildPathKey subtype setting line =
     key_or_underscore subtype @ ''|'' @ key_or_underscore setting @ ''|'' @ key_or_underscore line"

text \<open>\<open>parts.join('_')\<close>\<close>

fun join_underscore :: "string list \<Rightarrow> string" where
  "join_underscore [] = []"
| "join_underscore [x] = x"
| "join_underscore (x # y # ys) = x @ ''_'' @ join_underscore (y # ys)"

definition buildCohortId ::
  "string option \<Rightarrow> string option \<Rightarrow> string option \<Rightarrow> string \<Rightarrow> string"
where
  "buildCohortId subtype setting line regimen =
     join_underscore
       ((if truthy subtype then [the subtype] else [])
        @ (if truthy setting then [the setting] else [])
        @ (if truthy line then [the line] else [])
        @ [regimen])"

definition filterSharesForDimension :: "number dict \<Rightarrow> string list \<Rightarrow> number dict" where
  "filterSharesForDimension shares dimension_keys =
     concat (map (\<lambda>k. case map_of shares k of None \<Rightarrow> [] | Some v \<Rightarrow> [(k, v)]) dimension_keys)"

text \<open>\<open>throwIfInvalid(result, context)\<close>\<close>

definition throwIfInvalid :: "ValidationResult \<Rightarrow> string \<Rightarrow> unit outcome" where
  "throwIfInvalid result ctxt =
     (if valid result then Returns () else Throws (ValidationFailed ctxt (errors result)))"

text \<open>Step 1: the base population, its source, and the warnings of the selection.\<close>

definition select_base_pool ::
  "population_model_kind \<Rightarrow> Assumptions \<Rightarrow> real \<times> base_pool_source_kind \<times> message list"
where
  "select_base_pool m assumptions =
     (case m of
        prevalence_based \<Rightarrow>
          (or_zero (prevalence assumptions), from_prevalence,
           if truthy_num (prevalence assumptions) then [] else [NoPrevalenceProvided])
      | incidence_based \<Rightarrow>
          (or_zero (incidence assumptions), from_incidence,
           if truthy_num (incidence assumptions) then [] else [NoIncidenceProvided])
      | auto \<Rightarrow>
          if truthy_num (prevalence assumptions) \<and> or_zero (prevalence assumptions) > 0
          then (or_zero (prevalence assumptions), from_prevalence, [])
          else if truthy_num (incidence assumptions) \<and> or_zero (incidence assumptions) > 0
          then (or_zero (incidence assumptions), from_incidence, [])
          else (0, from_prevalence, [NoBasePopulation]))"

text \<open>Step 3: the distinct truthy values of one dimension, in order of first occurrence.\<close>

definition unique_keys :: "(TreatmentNode \<Rightarrow> string option) \<Rightarrow> TreatmentNode list \<Rightarrow> string list"
where
  "unique_keys key ns =
     foldl (\<lambda>acc n. if truthy (key n) then set_add acc (the (key n)) else acc) [] ns"

text \<open>
  Step 4 for one dimension: the normalized share map, the warnings and the validation
  trace. A dimension the taxonomy does not use gives the empty map; a dimension without a
  share map gives equal shares. A renormalized map holds \<open>NaN\<close> when the shares sum to 0;
  the allocation would go on with \<open>NaN\<close> populations, and the model stops there.
\<close>

definition normalize_dimension ::
  "string \<Rightarrow> string list \<Rightarrow> number dict option \<Rightarrow> 'a ValidationConfig_scheme
     \<Rightarrow> (number dict \<times> message list \<times> ShareValidationTrace option) outcome"
where
  "normalize_dimension name uniq raw config =
     (if uniq \<noteq> [] \<and> raw \<noteq> None then
        (let vr = validateShares (filterSharesForDimension (the raw) uniq) name config;
             m = (case normalized_value (fst vr) of None \<Rightarrow> [] | Some m \<Rightarrow> m)
         in
         obind (throwIfInvalid (fst vr) name) (\<lambda>_.
           if \<exists>e \<in> set m. snd e = NaN then NotFinite
           else Returns (m, warnings (fst vr), Some (snd vr))))
      else if uniq \<noteq> [] then
        (let equal_share = 1 / real (length uniq) in
         Returns (map (\<lambda>k. (k, Num equal_share)) uniq,
                  [EqualDimensionShares name equal_share], None))
      else Returns ([], [], None))"

text \<open>Step 5, first loop: the unique paths with the regimens of each.\<close>

definition add_node_path :: "(string \<times> PathInfo) list \<Rightarrow> TreatmentNode \<Rightarrow> (string \<times> PathInfo) list"
where
  "add_node_path paths node =
     (let pathKey = buildPathKey (subtype_key node) (setting_key node) (line_key node) in
      case map_of paths pathKey of
        None \<Rightarrow>
          paths @ [(pathKey, \<lparr>subtype_key = subtype_key node, setting_key = setting_key node,
                             line_key = line_key node, regimen_keys = [regimen_key node]\<rparr>)]
      | Some p \<Rightarrow>
          if regimen_key node \<in> set (regimen_keys p) then paths
          else map_set pathKey (p\<lparr>regimen_keys := regimen_keys p @ [regimen_key node]\<rparr>) paths)"

definition unique_paths :: "TreatmentNode list \<Rightarrow> (string \<times> PathInfo) list" where
  "unique_paths ns = foldl add_node_path [] ns"

text \<open>
  One of the three share applications of the second loop: the population and the trace
  after it. A key that is falsy or has no entry in the normalized map leaves both as
  they are.
\<close>

definition apply_share ::
  "string \<Rightarrow> string option \<Rightarrow> number dict \<Rightarrow> bool option \<Rightarrow> real \<times> AllocationTrace list
     \<Rightarrow> (real \<times> AllocationTrace list) outcome"
where
  "apply_share step_name key shares was_normalized st =
     (if truthy key then
        (case map_of shares (the key) of
           None \<Rightarrow> Returns st
         | Some NaN \<Rightarrow> NotFinite
         | Some (Num share) \<Rightarrow>
             Returns (fst st * share,
                      snd st @ [\<lparr>step = step_name, input_population = fst st,
                                 share_applied = Some share, share_key = key,
                                 output_population = fst st * share,
                                 trace_normalized = was_normalized, trace_note = None\<rparr>]))
      else Returns st)"

text \<open>\<open>regimen_shares[regimen] || 0\<close>\<close>

definition share_or_zero :: "real dict \<Rightarrow> string \<Rightarrow> real" where
  "share_or_zero m r = (case map_of m r of None \<Rightarrow> 0 | Some v \<Rightarrow> v)"

text \<open>
  The regimen shares of one path and the trace entry that explains them: the configured
  shares of the path's regimens, divided by their sum when it is positive and further than
  0.001 from 1, or an equal split.
\<close>

definition path_regimen_shares ::
  "string \<Rightarrow> string list \<Rightarrow> real dict \<Rightarrow> real \<Rightarrow> real dict \<times> AllocationTrace list"
where
  "path_regimen_shares pathKey regimens shares current_population =
     (if \<exists>r \<in> set regimens. map_of shares r \<noteq> None then
        (let raw = map (\<lambda>r. (r, share_or_zero shares r)) regimens;
             path_sum = sum_list (map snd raw)
         in
         if path_sum > 0 \<and> \<bar>path_sum - 1\<bar> > 1/1000 then
           (map (\<lambda>r. (r, share_or_zero raw r / path_sum)) regimens,
            [\<lparr>step = ''regimen_renormalization'', input_population = current_population,
              share_applied = None, share_key = None, output_population = current_population,
              trace_normalized = None,
              trace_note = Some (RegimenRenormalizedNote path_sum pathKey)\<rparr>])
         else (raw, []))
      else
        (let equal_share = 1 / real (length regimens) in
         (map (\<lambda>r. (r, equal_share)) regimens,
          [\<lparr>step = ''regimen_equal_split'', input_population = current_population,
            share_applied = None, share_key = None, output_population = current_population,
            trace_normalized = None,
            trace_note = Some (RegimenEqualSplitNote (length regimens) equal_share)\<rparr>])))"

text \<open>The leaf cohort of one regimen of a path.\<close>

definition leaf_cohort ::
  "Assumptions \<Rightarrow> PathInfo \<Rightarrow> real dict \<Rightarrow> real \<Rightarrow> AllocationTrace list \<Rightarrow> string \<Rightarrow> LeafCohort"
where
  "leaf_cohort assumptions pathInfo shares current_population trace0 regimen =
     (let regimen_share = share_or_zero shares regimen;
          regimen_population = current_population * regimen_share;
          regimen_trace = trace0 @
            [\<lparr>step = ''regimen_allocation'', input_population = current_population,
              share_applied = Some regimen_share, share_key = Some regimen,
              output_population = regimen_population,
              trace_normalized = None, trace_note = None\<rparr>];
          tot = (if truthy (line_key pathInfo) then
                   (case time_on_treatment_months assumptions of
                      None \<Rightarrow> None
                    | Some m \<Rightarrow> map_of m (the (line_key pathInfo)))
                 else None);
          p = \<lparr>subtype_key = subtype_key pathInfo, setting_key = setting_key pathInfo,
               line_key = line_key pathInfo, regimen_key = regimen\<rparr>;
          cid = buildCohortId (subtype_key pathInfo) (setting_key pathInfo) (line_key pathInfo)
                  regimen
      in
      case tot of
        Some tot_months \<Rightarrow>
          if tot_months \<noteq> 0 then
            \<lparr>cohort_id = cid, path = p, patients = regimen_population,
              cohort_patient_years = regimen_population * (tot_months / 12),
              trace = regimen_trace @
                [\<lparr>step = ''patient_years_calculation'', input_population = regimen_population,
                  share_applied = Some (tot_months / 12),
                  share_key = Some (''ToT_'' @ the (line_key pathInfo)),
                  output_population = regimen_population * (tot_months / 12),
                  trace_normalized = None,
                  trace_note = Some (MonthsOnTreatmentNote tot_months)\<rparr>]\<rparr>
          else
            \<lparr>cohort_id = cid, path = p, patients = regimen_population,
              cohort_patient_years = regimen_population, trace = regimen_trace\<rparr>
      | None \<Rightarrow>
          \<lparr>cohort_id = cid, path = p, patients = regimen_population,
            cohort_patient_years = regimen_population, trace = regimen_trace\<rparr>)"

text \<open>
  The population of a path once the subtype, setting and line shares are applied, with
  the trace up to there.
\<close>

definition path_population ::
  "real \<Rightarrow> number \<Rightarrow> real \<Rightarrow> number dict \<Rightarrow> number dict \<Rightarrow> number dict \<Rightarrow> ShareTraces
     \<Rightarrow> PathInfo \<Rightarrow> (real \<times> AllocationTrace list) outcome"
where
  "path_population base rate treated subtype_sh setting_sh line_sh traces pathInfo =
     obind (apply_share ''subtype_allocation'' (subtype_key pathInfo) subtype_sh
              (map_option normalized (subtype_shares_trace traces))
              (treated,
               [\<lparr>step = ''start'', input_population = base,
                 share_applied = Some (num_value rate), share_key = Some ''treated_rate'',
                 output_population = treated, trace_normalized = None, trace_note = None\<rparr>]))
       (\<lambda>st1.
     obind (apply_share ''setting_allocation'' (setting_key pathInfo) setting_sh
              (map_option normalized (setting_shares_trace traces)) st1)
       (\<lambda>st2.
     apply_share ''line_allocation'' (line_key pathInfo) line_sh
       (map_option normalized (line_shares_trace traces)) st2))"

text \<open>\<open>config.regimen_shares || {}\<close>\<close>

definition regimen_shares_or_empty :: "'a CohortAllocationConfig_scheme \<Rightarrow> real dict" where
  "regimen_shares_or_empty config = (case regimen_shares config of None \<Rightarrow> [] | Some m \<Rightarrow> m)"

text \<open>\<open>regimens.some(r => regimen_shares[r] !== undefined)\<close>\<close>

definition has_regimen_shares :: "'a CohortAllocationConfig_scheme \<Rightarrow> string list \<Rightarrow> bool" where
  "has_regimen_shares config regimens =
     (\<exists>r \<in> set regimens. map_of (regimen_shares_or_empty config) r \<noteq> None)"

text \<open>What steps 1 to 4 hand to the allocation loop.\<close>

record AllocationInputs =
  in_base_pool :: real
  in_base_pool_source :: base_pool_source_kind
  in_treated_pool :: real
  in_subtype_shares :: "number dict"
  in_setting_shares :: "number dict"
  in_line_shares :: "number dict"
  in_share_traces :: ShareTraces
  in_warnings :: "message list"

text \<open>The body of the second loop of step 5: the leaf cohorts of one path.\<close>

definition allocate_path ::
  "Assumptions \<Rightarrow> 'a CohortAllocationConfig_scheme \<Rightarrow> AllocationInputs
     \<Rightarrow> string \<times> PathInfo \<Rightarrow> LeafCohort list outcome"
where
  "allocate_path assumptions config inp entry =
     (let pathKey = fst entry; pathInfo = snd entry in
      obind (path_population (in_base_pool inp) (treated_rate assumptions) (in_treated_pool inp)
               (in_subtype_shares inp) (in_setting_shares inp) (in_line_shares inp)
               (in_share_traces inp) pathInfo)
        (\<lambda>st.
          let regimens = regimen_keys pathInfo in
          if \<not> has_regimen_shares config regimens \<and> \<not> allow_equal_regimen_split config
          then Throws (NoRegimenSharesForPath pathKey)
          else
            (let prs = path_regimen_shares pathKey regimens (regimen_shares_or_empty config)
                         (fst st)
             in
             Returns (map (leaf_cohort assumptions pathInfo (fst prs) (fst st)
                             (snd st @ snd prs)) regimens))))"

text \<open>Steps 1 to 4: the pools and the validated, normalized share maps.\<close>

definition allocation_inputs ::
  "TreatmentMap \<Rightarrow> Assumptions \<Rightarrow> 'a CohortAllocationConfig_scheme \<Rightarrow> AllocationInputs outcome"
where
  "allocation_inputs treatment_map assumptions config =
     (let sel = select_base_pool (population_model config) assumptions;
          base = fst sel;
          pop_validation = validatePopulation (Num base) ''base_pool'' config;
          rate_validation = validateRate (treated_rate assumptions) ''treated_rate'';
          treated = base * num_value (treated_rate assumptions);
          ns = nodes treatment_map;
          unique_subtypes = unique_keys subtype_key ns;
          unique_settings = unique_keys setting_key ns;
          unique_lines = unique_keys line_key ns;
          raw_setting_shares =
            (case setting_shares assumptions of
               None \<Rightarrow> stage_shares assumptions | Some m \<Rightarrow> Some m)
      in
      obind (throwIfInvalid pop_validation ''base_pool'') (\<lambda>_.
      obind (throwIfInvalid rate_validation ''treated_rate'') (\<lambda>_.
      obind (normalize_dimension ''subtype_shares'' unique_subtypes
               (subtype_shares assumptions) config) (\<lambda>sub.
      obind (normalize_dimension ''setting_shares'' unique_settings raw_setting_shares config)
        (\<lambda>sett.
      obind (normalize_dimension ''line_shares'' unique_lines (line_shares assumptions) config)
        (\<lambda>lin.
        Returns
          \<lparr>in_base_pool = base, in_base_pool_source = fst (snd sel),
            in_treated_pool = treated,
            in_subtype_shares = fst sub, in_setting_shares = fst sett,
            in_line_shares = fst lin,
            in_share_traces =
              \<lparr>subtype_shares_trace = snd (snd sub),
                setting_shares_trace = snd (snd sett),
                line_shares_trace = snd (snd lin)\<rparr>,
            in_warnings =
              snd (snd sel) @ warnings pop_validation @ fst (snd sub) @ fst (snd sett)
              @ fst (snd lin)\<rparr>))))))"

text \<open>Step 6: the totals, the conservation ratio and its warning.\<close>

definition allocation_result :: "'a ValidationConfig_scheme \<Rightarrow> AllocationInputs \<Rightarrow> LeafCohort list
    \<Rightarrow> CohortAllocationResult" where
  "allocation_result config inp cohorts =
     (let treated = in_treated_pool inp;
          total = sum_list (map patients cohorts);
          ratio = (if treated > 0 then total / treated else 1)
      in
      \<lparr>base_pool = in_base_pool inp, base_pool_source = in_base_pool_source inp,
        treated_pool = treated, leaf_cohorts = cohorts, total_allocated = total,
        share_traces = in_share_traces inp, conservation_ratio = ratio,
        allocation_warnings =
          in_warnings inp
          @ (if \<bar>ratio - 1\<bar> > share_sum_tolerance config
             then [ConservationCheck total treated] else [])\<rparr>)"

definition allocateCohorts ::
  "TreatmentMap \<Rightarrow> Assumptions \<Rightarrow> 'a CohortAllocationConfig_scheme
     \<Rightarrow> CohortAllocationResult outcome"
where
  "allocateCohorts treatment_map assumptions config =
     obind (allocation_inputs treatment_map assumptions config) (\<lambda>inp.
     obind (collect (allocate_path assumptions config inp) (unique_paths (nodes treatment_map)))
       (\<lambda>cohorts. Returns (allocation_result config inp cohorts)))"

section \<open>Population allocation (population.ts)\<close>

definition DEFAULT_ALLOCATION_CONFIG :: CohortAllocationConfig where
  "DEFAULT_ALLOCATION_CONFIG =
     \<lparr>allow_share_renormalization = True, allow_equal_regimen_split = True,
      share_sum_tolerance = 5/100, max_renormalization_deviation = 15/100,
      max_population = Some 350000000, population_model = auto, regimen_shares = None\<rparr>"







section \<open>Forecast (forecast.ts)\<close>


text \<open>\<open>x ? x * scale : undefined\<close> and \<open>x * scale\<close> on numbers.\<close>

definition scale_truthy :: "number option \<Rightarrow> real \<Rightarrow> number option" where
  "scale_truthy x k = (if truthy_num x then Some (Num (or_zero x * k)) else None)"

fun num_times :: "number \<Rightarrow> real \<Rightarrow> number" where
  "num_times NaN k = NaN"
| "num_times (Num r) k = Num (r * k)"

definition year_assumptions :: "Assumptions \<Rightarrow> ScenarioParameters \<Rightarrow> nat \<Rightarrow> Assumptions" where
  "year_assumptions base_assumptions scenario_params year_offset =
     (let epi_scale = (1 + incidence_cagr scenario_params) ^ year_offset;
          treated_rate_scale = treated_rate_multiplier scenario_params;
          tot_scale = tot_multiplier scenario_params
      in
      base_assumptions
        \<lparr>incidence := scale_truthy (incidence base_assumptions) epi_scale,
         prevalence := scale_truthy (prevalence base_assumptions) epi_scale,
         treated_rate := num_times (treated_rate base_assumptions) treated_rate_scale,
         time_on_treatment_months :=
           map_option (map (\<lambda>e. (fst e, snd e * tot_scale)))
             (time_on_treatment_months base_assumptions)\<rparr>)"






section \<open>Notions used to state the properties, and example inputs\<close>

text \<open>The single largest configured vial size.\<close>

definition largest_vial_mg :: "VialSize list \<Rightarrow> real" where
  "largest_vial_mg vs = Max (size_mg ` set vs)"

definition vial :: "real \<Rightarrow> VialSize" where
  "vial mg = \<lparr>size_mg = mg, is_single_dose = True\<rparr>"

definition no_patterns :: NotesPatterns where
  "no_patterns = \<lparr>maintenance_pattern = (\<lambda>_. None), then_every_pattern = (\<lambda>_. None),
     every_pattern = (\<lambda>_. None), q_pattern = (\<lambda>_. None), cycle_pattern = (\<lambda>_. None),
     cycle_pattern_3 = (\<lambda>_. None)\<rparr>"

definition example_dose_schema :: DoseSchema where
  "example_dose_schema =
     \<lparr>dose_type = mg_per_kg, loading = None,
      maintenance = \<lparr>dose_value = 6, dose_unit = ''mg/kg''\<rparr>,
      interval_days = 21, dose_notes = None\<rparr>"

definition example_node :: "string \<Rightarrow> string option \<Rightarrow> string option \<Rightarrow> string option \<Rightarrow> string
    \<Rightarrow> TreatmentNode" where
  "example_node i sub sett lin reg =
     \<lparr>subtype_key = sub, setting_key = sett, line_key = lin, regimen_key = reg,
      node_id = i, route = IV, dose_schema = example_dose_schema\<rparr>"

definition example_assumptions :: Assumptions where
  "example_assumptions =
     \<lparr>base_year = 2024, horizon_years = 10, avg_weight_kg = Weight 70,
      vial_sizes = [(IV, [vial 150, vial 420]), (SC, [vial 600])],
      incidence = Some (Num 100000), prevalence = Some (Num 1000000),
      subtype_shares = None, stage_shares = None, setting_shares = None,
      treated_rate = Num 1, line_shares = None, time_on_treatment_months = None,
      relative_dose_intensity = Some 1, scenarios = None\<rparr>"

text \<open>
  Inputs for which the double arithmetic of the dispensing is exact. A number is whole
  when it is an integer; whole numbers up to \<open>2 ^ 53\<close> in magnitude are doubles, and sums,
  differences and products of such numbers that stay in that range are computed exactly.
  The dispensing of a node is exact when the largest vial, the administrations per year
  (\<open>365 / interval\<close> for the maintenance interval in force, plus the loading repeats) and
  the dose per administration are whole numbers of magnitude at most \<open>2 ^ 26\<close>, the vial
  and the interval are positive, and the loading repeats are not negative.
\<close>

definition whole :: "real \<Rightarrow> bool" where
  "whole x = (of_int \<lfloor>x\<rfloor> = x)"


text \<open>
  Nodes dosed every 73 days (five administrations a year), every 7 days, and once a year
  with a loading dose whose repeats are \<open>-3\<close>; assumptions with a single vial size.
\<close>

definition node_every :: "real \<Rightarrow> TreatmentNode" where
  "node_every days =
     (example_node ''n1'' None None None ''r1'')
       \<lparr>dose_schema := example_dose_schema\<lparr>interval_days := days\<rparr>\<rparr>"

definition negative_repeats_node :: TreatmentNode where
  "negative_repeats_node =
     (example_node ''n1'' None None None ''r1'')
       \<lparr>dose_schema := example_dose_schema
          \<lparr>interval_days := 365,
           loading := Some \<lparr>dose_value = 840, dose_unit = ''mg'', repeats = Some (- 3)\<rparr>\<rparr>\<rparr>"

definition one_vial_assumptions :: "real \<Rightarrow> Assumptions" where
  "one_vial_assumptions mg = example_assumptions\<lparr>vial_sizes := [(IV, [vial mg])]\<rparr>"

text \<open>
  A node declared every 21 days whose notes read \<open>days 1 and 8 of a 0-day cycle\<close>, and
  the matcher that finds the cycle length 0 in them.
\<close>

definition zero_cycle_patterns :: NotesPatterns where
  "zero_cycle_patterns =
     no_patterns\<lparr>cycle_pattern :=
       (\<lambda>s. if s = ''days 1 and 8 of a 0-day cycle'' then Some 0 else None)\<rparr>"

definition zero_cycle_node :: TreatmentNode where
  "zero_cycle_node =
     (example_node ''n1'' None None None ''r1'')
       \<lparr>dose_schema := example_dose_schema
          \<lparr>dose_notes := Some ''days 1 and 8 of a 0-day cycle''\<rparr>\<rparr>"

text \<open>
  A normalized share map is good when every value is a number and not negative. The
  factor a path takes from a map is the share of its key, or 1 when the key is falsy or
  has no entry; the population of a path is the treated pool times its three factors.
\<close>

definition good_shares :: "number dict \<Rightarrow> bool" where
  "good_shares m = (\<forall>e \<in> set m. snd e \<noteq> NaN \<and> 0 \<le> num_value (snd e))"

definition share_factor :: "number dict \<Rightarrow> string option \<Rightarrow> real" where
  "share_factor m key =
     (if truthy key then (case map_of m (the key) of None \<Rightarrow> 1 | Some v \<Rightarrow> num_value v) else 1)"

definition path_pop :: "AllocationInputs \<Rightarrow> 'a DimensionPath_scheme \<Rightarrow> real" where
  "path_pop inp p =
     in_treated_pool inp * share_factor (in_subtype_shares inp) (subtype_key p)
       * share_factor (in_setting_shares inp) (setting_key p)
       * share_factor (in_line_shares inp) (line_key p)"

text \<open>Three regimens on one path, as in the equal-split test of the allocator.\<close>

definition three_regimen_map :: TreatmentMap where
  "three_regimen_map =
     \<lparr>nodes = [example_node ''n1'' None (Some ''s1'') None ''r1'',
               example_node ''n2'' None (Some ''s1'') None ''r2'',
               example_node ''n3'' None (Some ''s1'') None ''r3'']\<rparr>"

definition three_regimen_assumptions :: Assumptions where
  "three_regimen_assumptions =
     example_assumptions\<lparr>prevalence := Some (Num 900000),
                          setting_shares := Some [(''s1'', Num 1)]\<rparr>"

definition strict_config :: CohortAllocationConfig where
  "strict_config = DEFAULT_ALLOCATION_CONFIG\<lparr>allow_equal_regimen_split := False\<rparr>"



text \<open>
  The conservation property speaks of taxonomies whose paths are the full cross product
  of their dimension values. The dimensions of a path are its keys with a falsy key read
  as absent; the values of a dimension are the keys the taxonomy uses, or the single
  value "absent" when it uses none.
\<close>

definition dim_key :: "string option \<Rightarrow> string option" where
  "dim_key k = (if truthy k then k else None)"

definition path_dims :: "'a DimensionPath_scheme \<Rightarrow> string option \<times> string option \<times> string option"
where
  "path_dims p = (dim_key (subtype_key p), dim_key (setting_key p), dim_key (line_key p))"

definition dim_values :: "string list \<Rightarrow> string option set" where
  "dim_values u = (if u = [] then {None} else Some ` set u)"

definition full_cross_product :: "TreatmentMap \<Rightarrow> bool" where
  "full_cross_product tm =
     (set (map (\<lambda>e. path_dims (snd e)) (unique_paths (nodes tm)))
        = dim_values (unique_keys subtype_key (nodes tm))
          \<times> dim_values (unique_keys setting_key (nodes tm))
          \<times> dim_values (unique_keys line_key (nodes tm)))"

text \<open>
  A share map covers a dimension when it is absent (the allocator then splits equally) or
  has an entry for every value of the dimension, the entries summing to 1.
\<close>

definition shares_cover :: "string list \<Rightarrow> number dict option \<Rightarrow> bool" where
  "shares_cover u raw =
     (case raw of
        None \<Rightarrow> True
      | Some sh \<Rightarrow>
          (\<forall>k \<in> set u. map_of sh k \<noteq> None)
          \<and> (u \<noteq> [] \<longrightarrow> sum_list (map (\<lambda>k. num_value (the (map_of sh k))) u) = 1))"

text \<open>
  The regimen shares cover the taxonomy when on every path that has configured regimen
  shares their sum is positive.
\<close>

definition regimen_sum :: "'a CohortAllocationConfig_scheme \<Rightarrow> string list \<Rightarrow> real" where
  "regimen_sum cfg regimens =
     sum_list (map (share_or_zero (regimen_shares_or_empty cfg)) regimens)"

definition regimens_cover :: "'a CohortAllocationConfig_scheme \<Rightarrow> TreatmentMap \<Rightarrow> bool" where
  "regimens_cover cfg tm =
     (\<forall>e \<in> set (unique_paths (nodes tm)).
        has_regimen_shares cfg (regimen_keys (snd e)) \<longrightarrow> 0 < regimen_sum cfg (regimen_keys (snd e)))"

definition dimensions_covered :: "TreatmentMap \<Rightarrow> Assumptions \<Rightarrow> bool" where
  "dimensions_covered tm a =
     (shares_cover (unique_keys subtype_key (nodes tm)) (subtype_shares a)
      \<and> shares_cover (unique_keys setting_key (nodes tm))
            (case setting_shares a of None \<Rightarrow> stage_shares a | Some m \<Rightarrow> Some m)
      \<and> shares_cover (unique_keys line_key (nodes tm)) (line_shares a))"

text \<open>Every entry of the path map is keyed by the path key of its own keys.\<close>

definition key_ok :: "string \<times> PathInfo \<Rightarrow> bool" where
  "key_ok e = (fst e = buildPathKey (subtype_key (snd e)) (setting_key (snd e)) (line_key (snd e)))"

text \<open>
  Two taxonomies: one with two of the four combinations of its subtypes and settings,
  and the one of the allocator's conservation test, which has all of them.
\<close>

definition diagonal_map :: TreatmentMap where
  "diagonal_map =
     \<lparr>nodes = [example_node ''n1'' (Some ''A'') (Some ''s1'') None ''r1'',
               example_node ''n2'' (Some ''B'') (Some ''s2'') None ''r1'']\<rparr>"

definition diagonal_assumptions :: Assumptions where
  "diagonal_assumptions =
     example_assumptions\<lparr>subtype_shares := Some [(''A'', Num (1/2)), (''B'', Num (1/2))],
                          setting_shares := Some [(''s1'', Num (1/2)), (''s2'', Num (1/2))]\<rparr>"

definition covering_map :: TreatmentMap where
  "covering_map =
     \<lparr>nodes = [example_node ''n1'' (Some ''A'') (Some ''s1'') (Some ''L1'') ''r1'',
               example_node ''n2'' (Some ''A'') (Some ''s1'') (Some ''L1'') ''r2'',
               example_node ''n3'' (Some ''A'') (Some ''s2'') (Some ''L1'') ''r1'',
               example_node ''n4'' (Some ''B'') (Some ''s1'') (Some ''L1'') ''r1'',
               example_node ''n5'' (Some ''B'') (Some ''s2'') (Some ''L1'') ''r1'']\<rparr>"

definition covering_assumptions :: Assumptions where
  "covering_assumptions =
     example_assumptions\<lparr>prevalence := Some (Num 500000), treated_rate := Num (8/10),
        subtype_shares := Some [(''A'', Num (6/10)), (''B'', Num (4/10))],
        setting_shares := Some [(''s1'', Num (7/10)), (''s2'', Num (3/10))],
        line_shares := Some [(''L1'', Num 1)]\<rparr>"

definition covering_config :: CohortAllocationConfig where
  "covering_config =
     DEFAULT_ALLOCATION_CONFIG\<lparr>regimen_shares := Some [(''r1'', 6/10), (''r2'', 4/10)]\<rparr>"




section \<open>Properties of share validation\<close>

lemma share_errors_empty_iff:
  "share_errors d e = [] \<longleftrightarrow>
     snd e \<noteq> NaN \<and> 0 \<le> num_value (snd e) \<and> num_value (snd e) \<le> 1"
  by (cases e; cases "snd e") auto

lemma share_errors_all_empty_iff:
  "concat (map (share_errors d) shares) = [] \<longleftrightarrow>
     (\<forall>e \<in> set shares. snd e \<noteq> NaN \<and> 0 \<le> num_value (snd e) \<and> num_value (snd e) \<le> 1)"
  by (simp add: share_errors_empty_iff)

text \<open>
  Claim C3. \<open>validateShares\<close> reports \<open>valid = false\<close> exactly when the share map is empty,
  or some value is \<open>NaN\<close>, negative or greater than 1, or the sum exceeds 1.0 by more than
  \<open>share_sum_tolerance\<close> while renormalization is disabled or the deviation from 1.0
  exceeds \<open>max_renormalization_deviation\<close>. In every other case, a sum below 1.0 with all
  values in \<open>[0, 1]\<close> included, the result is valid.
\<close>

theorem validateShares_invalid_iff:
  "\<not> valid (fst (validateShares shares d config)) \<longleftrightarrow>
     shares = []
     \<or> (\<exists>e \<in> set shares. snd e = NaN \<or> num_value (snd e) < 0 \<or> num_value (snd e) > 1)
     \<or> (share_total shares > 1
        \<and> share_total shares - 1 > share_sum_tolerance config
        \<and> (\<not> allow_share_renormalization config
           \<or> \<bar>share_total shares - 1\<bar> > max_renormalization_deviation config))"
proof -
  have e: "concat (map (share_errors d) shares) \<noteq> [] \<longleftrightarrow>
      (\<exists>e \<in> set shares. snd e = NaN \<or> num_value (snd e) < 0 \<or> num_value (snd e) > 1)"
    unfolding share_errors_all_empty_iff[of d shares] by (auto simp: not_le)
  show ?thesis
    unfolding validateShares_def Let_def
    using e by (auto split: if_splits)
qed

theorem validateShares_invalid_iff_witness:
  "\<not> valid (fst (validateShares [(''s1'', Num (8/10)), (''s2'', Num (8/10))]
                  ''setting_shares'' DEFAULT_VALIDATION_CONFIG))
   \<and> valid (fst (validateShares [(''a'', Num (4/10)), (''b'', Num (35/100))]
                  ''test'' DEFAULT_VALIDATION_CONFIG))"
  using
    validateShares_invalid_iff[of "[(''s1'', Num (8/10)), (''s2'', Num (8/10))]"
      "''setting_shares''" DEFAULT_VALIDATION_CONFIG]
    validateShares_invalid_iff[of "[(''a'', Num (4/10)), (''b'', Num (35/100))]"
      "''test''" DEFAULT_VALIDATION_CONFIG]
  by (simp add: DEFAULT_VALIDATION_CONFIG_def share_total_def)

text \<open>
  Claim C4. For a share map whose values lie in \<open>[0, 1]\<close> and sum to 1.10, with
  \<open>share_sum_tolerance\<close> below 0.10, \<open>max_renormalization_deviation = 0.15\<close> and
  renormalization enabled, \<open>validateShares\<close> returns a normalized map in which each value
  is the original value divided by 1.10, and records one warning that names the
  dimension. The same configuration on a map that sums to 1.6 gives a hard validation
  error.
\<close>

theorem validateShares_renormalization:
  assumes "allow_share_renormalization config"
    and "max_renormalization_deviation config = 15/100"
    and "share_sum_tolerance config < 1/10"
    and "\<forall>e \<in> set shares. snd e \<noteq> NaN \<and> 0 \<le> num_value (snd e) \<and> num_value (snd e) \<le> 1"
  shows "(share_total shares = 11/10 \<longrightarrow>
            valid (fst (validateShares shares d config))
          \<and> normalized_value (fst (validateShares shares d config))
              = Some (map (\<lambda>e. (fst e, Num (num_value (snd e) / (11/10)))) shares)
          \<and> warnings (fst (validateShares shares d config)) = [ShareRenormalized d (11/10)])
       \<and> (share_total shares = 16/10 \<longrightarrow>
            \<not> valid (fst (validateShares shares d config))
          \<and> errors (fst (validateShares shares d config))
              = [SharesMustSum d (share_sum_tolerance config) (16/10)])"
proof -
  have e: "concat (map (share_errors d) shares) = []"
    unfolding share_errors_all_empty_iff using assms(4) .
  have ne: "share_total shares \<noteq> 0 \<Longrightarrow> shares \<noteq> []"
    by (auto simp: share_total_def)
  have a: "valid (fst (validateShares shares d config))
          \<and> normalized_value (fst (validateShares shares d config))
              = Some (map (\<lambda>e. (fst e, Num (num_value (snd e) / (11/10)))) shares)
          \<and> warnings (fst (validateShares shares d config)) = [ShareRenormalized d (11/10)]"
    if s: "share_total shares = 11/10"
  proof -
    have "shares \<noteq> []" using ne s by simp
    then show ?thesis
      using assms(1-3) e
      by (simp add: validateShares_def Let_def renormalize_def share_div_def s)
  qed
  have b: "\<not> valid (fst (validateShares shares d config))
          \<and> errors (fst (validateShares shares d config))
              = [SharesMustSum d (share_sum_tolerance config) (16/10)]"
    if s: "share_total shares = 16/10"
  proof -
    have "shares \<noteq> []" using ne s by simp
    then show ?thesis
      using assms(1-3) e
      by (simp add: validateShares_def Let_def s)
  qed
  show ?thesis using a b by blast
qed

theorem validateShares_renormalization_witness:
  "valid (fst (validateShares [(''s1'', Num (55/100)), (''s2'', Num (55/100))]
                ''setting_shares'' DEFAULT_VALIDATION_CONFIG))
   \<and> normalized_value (fst (validateShares [(''s1'', Num (55/100)), (''s2'', Num (55/100))]
                ''setting_shares'' DEFAULT_VALIDATION_CONFIG))
       = Some [(''s1'', Num (1/2)), (''s2'', Num (1/2))]
   \<and> warnings (fst (validateShares [(''s1'', Num (55/100)), (''s2'', Num (55/100))]
                ''setting_shares'' DEFAULT_VALIDATION_CONFIG))
       = [ShareRenormalized ''setting_shares'' (11/10)]
   \<and> \<not> valid (fst (validateShares [(''s1'', Num (8/10)), (''s2'', Num (8/10))]
                ''setting_shares'' DEFAULT_VALIDATION_CONFIG))"
proof -
  have h1: "allow_share_renormalization DEFAULT_VALIDATION_CONFIG"
    and h2: "max_renormalization_deviation DEFAULT_VALIDATION_CONFIG = 15/100"
    and h3: "share_sum_tolerance DEFAULT_VALIDATION_CONFIG < 1/10"
    by (simp_all add: DEFAULT_VALIDATION_CONFIG_def)
  have h4: "\<forall>e \<in> set [(''s1'', Num (55/100)), (''s2'', Num (55/100))].
              snd e \<noteq> NaN \<and> 0 \<le> num_value (snd e) \<and> num_value (snd e) \<le> 1"
    and h5: "\<forall>e \<in> set [(''s1'', Num (8/10)), (''s2'', Num (8/10))].
              snd e \<noteq> NaN \<and> 0 \<le> num_value (snd e) \<and> num_value (snd e) \<le> 1"
    by simp_all
  have s: "share_total [(''s1'', Num (55/100)), (''s2'', Num (55/100))] = 11/10"
    and t: "share_total [(''s1'', Num (8/10)), (''s2'', Num (8/10))] = 16/10"
    by (simp_all add: share_total_def)
  show ?thesis
    using validateShares_renormalization[OF h1 h2 h3 h4, of "''setting_shares''"]
      validateShares_renormalization[OF h1 h2 h3 h5, of "''setting_shares''"] s t by simp
qed

section \<open>Properties of double rounding\<close>

lemma pow2_powr: "pow2 e = 2 powr (of_int e)"
proof (cases "0 \<le> e")
  case True
  then have "2 powr (of_int e) = (2::real) powr (real (nat e))" by simp
  also have "\<dots> = 2 ^ nat e" by (simp only: powr_realpow zero_less_numeral)
  finally show ?thesis using True by (simp add: pow2_def)
next
  case False
  then have "(2::real) powr (of_int e) = 2 powr (- real (nat (- e)))" by simp
  also have "\<dots> = 1 / 2 powr (real (nat (- e)))" by (simp only: powr_minus_divide)
  also have "\<dots> = 1 / 2 ^ nat (- e)" by (simp only: powr_realpow zero_less_numeral)
  finally show ?thesis using False by (simp add: pow2_def)
qed

lemma pow2_pos [simp]: "0 < pow2 e"
  by (simp add: pow2_powr)

lemma pow2_add: "pow2 (a + b) = pow2 a * pow2 b"
  by (simp add: pow2_powr powr_add)

lemma pow2_mono: "a \<le> b \<Longrightarrow> pow2 a \<le> pow2 b"
  by (simp add: pow2_powr)

lemma pow2_nat: "0 \<le> e \<Longrightarrow> pow2 e = 2 ^ nat e"
  by (simp add: pow2_def)

lemma of_int_le_two_power: "(c::int) \<le> 2 ^ n \<Longrightarrow> (of_int c :: real) \<le> 2 ^ n"
  by simp

lemma two_power_le_of_int: "2 ^ n \<le> (c::int) \<Longrightarrow> (2::real) ^ n \<le> of_int c"
  by simp

lemma binade_bounds:
  assumes "x \<noteq> 0"
  shows "pow2 (binade x) \<le> \<bar>x\<bar>" and "\<bar>x\<bar> < pow2 (binade x + 1)"
proof -
  have both: "pow2 (binade x) \<le> \<bar>x\<bar> \<and> \<bar>x\<bar> < pow2 (binade x + 1)"
  proof (cases "1 \<le> \<bar>x\<bar>")
    case True
    let ?n = "\<lfloor>\<bar>x\<bar>\<rfloor>"
    let ?b = "bitlen ?n"
    have n: "0 < ?n" using True by simp
    from bitlen_bounds[OF n] have b: "2 ^ nat (?b - 1) \<le> ?n" "?n < 2 ^ nat ?b" by auto
    have b1: "1 \<le> ?b" using n by (auto simp: bitlen_alt_def)
    have e: "binade x = ?b - 1" using True by (simp add: binade_def)
    have "pow2 (?b - 1) = of_int (2 ^ nat (?b - 1))" using b1 by (simp add: pow2_nat)
    also have "\<dots> \<le> of_int ?n" using b(1) by (simp only: of_int_le_iff)
    also have "\<dots> \<le> \<bar>x\<bar>" by (rule of_int_floor_le)
    finally have lo: "pow2 (?b - 1) \<le> \<bar>x\<bar>" .
    have "?n + 1 \<le> 2 ^ nat ?b" using b(2) by simp
    then have "of_int (?n + 1) \<le> (2::real) ^ nat ?b" by (rule of_int_le_two_power)
    moreover have "\<bar>x\<bar> < of_int (?n + 1)" by linarith
    ultimately have "\<bar>x\<bar> < 2 ^ nat ?b" by (rule less_le_trans[rotated])
    then have hi: "\<bar>x\<bar> < pow2 ?b" using b1 by (simp add: pow2_nat)
    show ?thesis using lo hi e by simp
  next
    case False
    let ?y = "1 / \<bar>x\<bar>"
    let ?c = "\<lceil>?y\<rceil>"
    let ?b = "bitlen (?c - 1)"
    have x: "0 < \<bar>x\<bar>" "\<bar>x\<bar> < 1" using assms False by auto
    have y: "1 < ?y" using x by simp
    have c: "2 \<le> ?c" using y by linarith
    then have n: "0 < ?c - 1" by simp
    from bitlen_bounds[OF n] have b: "2 ^ nat (?b - 1) \<le> ?c - 1" "?c - 1 < 2 ^ nat ?b" by auto
    have b1: "1 \<le> ?b" using n by (auto simp: bitlen_alt_def)
    have e: "binade x = - ?b" using False by (simp add: binade_def)
    have "?c \<le> 2 ^ nat ?b" using b(2) by simp
    then have "of_int ?c \<le> (2::real) ^ nat ?b" by (rule of_int_le_two_power)
    moreover have "?y \<le> of_int ?c" by (rule le_of_int_ceiling)
    ultimately have "?y \<le> 2 ^ nat ?b" by (rule order_trans[rotated])
    then have "1 \<le> 2 ^ nat ?b * \<bar>x\<bar>" using x(1) by (simp add: field_simps)
    then have lo: "pow2 (- ?b) \<le> \<bar>x\<bar>" using b1 by (simp add: pow2_def field_simps)
    have "(2::real) ^ nat (?b - 1) \<le> of_int (?c - 1)" using b(1) by (rule two_power_le_of_int)
    moreover have "of_int (?c - 1) < ?y" by linarith
    ultimately have "2 ^ nat (?b - 1) < ?y" by (rule le_less_trans)
    then have "2 ^ nat (?b - 1) * \<bar>x\<bar> < 1" using x(1) by (simp add: field_simps)
    then have hi: "\<bar>x\<bar> < pow2 (- ?b + 1)"
    proof (cases "?b = 1")
      case True
      then show ?thesis using x by (simp add: pow2_def)
    next
      case False
      then have "\<not> 0 \<le> - ?b + 1" using b1 by simp
      moreover have "nat (- (- ?b + 1)) = nat (?b - 1)" by simp
      moreover have "\<bar>x\<bar> < 1 / 2 ^ nat (?b - 1)"
        using \<open>2 ^ nat (?b - 1) * \<bar>x\<bar> < 1\<close> by (simp add: field_simps)
      ultimately show ?thesis by (simp add: pow2_def)
    qed
    show ?thesis using lo hi e by simp
  qed
  show "pow2 (binade x) \<le> \<bar>x\<bar>" using both by simp
  show "\<bar>x\<bar> < pow2 (binade x + 1)" using both by simp
qed

lemma binade_eq:
  assumes "pow2 e \<le> \<bar>x\<bar>" and "\<bar>x\<bar> < pow2 (e + 1)"
  shows "binade x = e"
proof -
  have "0 < \<bar>x\<bar>" by (rule less_le_trans[OF pow2_pos assms(1)])
  then have x: "x \<noteq> 0" by simp
  note b = binade_bounds[OF x]
  have "\<not> binade x < e"
  proof
    assume "binade x < e"
    then have "pow2 (binade x + 1) \<le> pow2 e" by (intro pow2_mono) simp
    then show False using b(2) assms(1) by linarith
  qed
  moreover have "\<not> e < binade x"
  proof
    assume "e < binade x"
    then have "pow2 (e + 1) \<le> pow2 (binade x)" by (intro pow2_mono) simp
    then show False using b(1) assms(2) by linarith
  qed
  ultimately show ?thesis by simp
qed

lemma round_even_of_int [simp]: "round_even (of_int k) = k"
  by (simp add: round_even_def)

lemma round_even_near:
  assumes "\<bar>x - of_int k\<bar> < 1/2"
  shows "round_even x = k"
proof (cases "of_int k \<le> x")
  case True
  then have "\<lfloor>x\<rfloor> = k" using assms by (intro floor_unique) auto
  then show ?thesis using assms True by (simp add: round_even_def)
next
  case False
  then have f: "\<lfloor>x\<rfloor> = k - 1" using assms by (intro floor_unique) auto
  have "1/2 < x - of_int (k - 1)" using assms False by auto
  then show ?thesis using f by (simp add: round_even_def Let_def)
qed


text \<open>
  How \<open>fl\<close> is evaluated: for \<open>x\<close> with \<open>2 ^ e \<le> \<bar>x\<bar> < 2 ^ (e + 1)\<close> it is the multiple of
  \<open>2 ^ (e - 52)\<close> nearest to \<open>x\<close>, the even one of two that are equally near.
\<close>

lemma fl_eval:
  assumes "pow2 e \<le> \<bar>x\<bar>" and "\<bar>x\<bar> < pow2 (e + 1)" and "- 1022 \<le> e"
    and "\<bar>x / pow2 (e - 52) - of_int k\<bar> < 1/2"
  shows "fl x = of_int k * pow2 (e - 52)"
proof -
  have "0 < \<bar>x\<bar>" by (rule less_le_trans[OF pow2_pos assms(1)])
  then have x: "x \<noteq> 0" by simp
  have "binade x = e" using assms(1,2) by (rule binade_eq)
  then have "fl x = of_int (round_even (x / pow2 (e - 52))) * pow2 (e - 52)"
    using x assms(3) by (simp add: fl_def Let_def max_def)
  then show ?thesis using round_even_near[OF assms(4)] by simp
qed

lemma fl_eq:
  assumes "pow2 e \<le> \<bar>x\<bar>" and "\<bar>x\<bar> < pow2 (e + 1)" and "- 1022 \<le> e"
    and "\<bar>x / pow2 (e - 52) - of_int k\<bar> < 1/2" and "y = of_int k * pow2 (e - 52)"
  shows "fl x = y"
  using fl_eval[OF assms(1-4)] assms(5) by simp


lemma fl_0 [simp]: "fl 0 = 0"
  by (simp add: fl_def)

text \<open>
  Whole numbers of magnitude at most \<open>2 ^ 53\<close> are doubles: rounding leaves them as they
  are.
\<close>

lemma fl_of_int:
  assumes "\<bar>k\<bar> \<le> 2 ^ 53"
  shows "fl (of_int k) = of_int k"
proof (cases "k = 0")
  case True
  then show ?thesis by simp
next
  case False
  let ?x = "of_int k :: real"
  let ?e = "binade ?x"
  have x: "?x \<noteq> 0" using False by simp
  note b = binade_bounds[OF x]
  have ax: "\<bar>?x\<bar> = of_int \<bar>k\<bar>" by simp
  have "1 \<le> \<bar>k\<bar>" using False by simp
  then have one: "1 \<le> \<bar>?x\<bar>" unfolding ax by (simp only: of_int_1_le_iff)
  have e0: "0 \<le> ?e"
  proof (rule ccontr)
    assume "\<not> 0 \<le> ?e"
    then have "pow2 (?e + 1) \<le> pow2 0" by (intro pow2_mono) simp
    then show False using b(2) one by (simp add: pow2_def)
  qed
  have e53: "?e \<le> 53"
  proof (rule ccontr)
    assume "\<not> ?e \<le> 53"
    then have "pow2 54 \<le> pow2 ?e" by (intro pow2_mono) simp
    moreover have "(of_int \<bar>k\<bar> :: real) \<le> of_int (2 ^ 53)" using assms by (simp only: of_int_le_iff)
    then have "\<bar>?x\<bar> \<le> 2 ^ 53" unfolding ax by simp
    ultimately show False using b(1) by (simp add: pow2_def)
  qed
  have m: "max ?e (- 1022) = ?e" using e0 by simp
  show ?thesis
  proof (cases "?e \<le> 52")
    case True
    have q: "pow2 (?e - 52) = 1 / 2 ^ nat (52 - ?e)"
    proof (cases "?e = 52")
      case True then show ?thesis by (simp add: pow2_def)
    next
      case False
      then have "\<not> 0 \<le> ?e - 52" using True by simp
      moreover have "nat (- (?e - 52)) = nat (52 - ?e)" by simp
      ultimately show ?thesis by (simp add: pow2_def)
    qed
    have "?x / pow2 (?e - 52) = of_int (k * 2 ^ nat (52 - ?e))" by (simp add: q)
    then have "round_even (?x / pow2 (?e - 52)) = k * 2 ^ nat (52 - ?e)"
      by (simp only: round_even_of_int)
    then show ?thesis using x m by (simp add: fl_def Let_def q)
  next
    case False
    then have e: "?e = 53" using e53 by simp
    have "2 ^ 53 \<le> \<bar>?x\<bar>" using b(1) e by (simp add: pow2_def)
    then have "(of_int (2 ^ 53) :: real) \<le> of_int \<bar>k\<bar>" unfolding ax by simp
    then have "(2::int) ^ 53 \<le> \<bar>k\<bar>" by (simp only: of_int_le_iff)
    then have k: "\<bar>k\<bar> = 2 ^ 53" using assms by simp
    then have "k = 2 ^ 53 \<or> k = - (2 ^ 53)" by (auto simp: abs_if split: if_splits)
    then obtain j :: int where j: "k = 2 * j" by auto
    have q: "pow2 (?e - 52) = 2" using e by (simp add: pow2_def)
    have "?x / pow2 (?e - 52) = of_int j" unfolding q by (simp add: j)
    then have "round_even (?x / pow2 (?e - 52)) = j" by (simp only: round_even_of_int)
    then have "of_int (round_even (?x / pow2 (?e - 52))) * pow2 (?e - 52) = ?x"
      unfolding q by (simp add: j)
    then show ?thesis using x m by (simp add: fl_def Let_def)
  qed
qed

lemma fl_whole:
  assumes "whole x" and "\<bar>x\<bar> \<le> 2 ^ 53"
  shows "fl x = x"
proof -
  have x: "x = of_int \<lfloor>x\<rfloor>" using assms(1) unfolding whole_def by (rule sym)
  have "\<bar>of_int \<lfloor>x\<rfloor> :: real\<bar> \<le> 2 ^ 53" using assms(2) x by simp
  then have "(of_int \<bar>\<lfloor>x\<rfloor>\<bar> :: real) \<le> of_int (2 ^ 53)" by simp
  then have "\<bar>\<lfloor>x\<rfloor>\<bar> \<le> 2 ^ 53" by (simp only: of_int_le_iff)
  from fl_of_int[OF this] show ?thesis using x by simp
qed

lemma whole_of_int [simp]: "whole (of_int k)"
  by (simp add: whole_def)




lemma whole_0 [simp]: "whole 0"
  using whole_of_int[of 0] by simp

lemma whole_numeral [simp]: "whole (numeral k)"
  using whole_of_int[of "numeral k"] by simp

lemma whole_neg_numeral [simp]: "whole (- numeral k)"
  using whole_of_int[of "- numeral k"] by simp

lemma whole_1 [simp]: "whole 1"
  using whole_of_int[of 1] by simp

lemma double_result_small: "\<bar>x\<bar> \<le> 2 ^ 53 \<Longrightarrow> double_result x = Returns x"
proof -
  assume "\<bar>x\<bar> \<le> 2 ^ 53"
  moreover have "(2::real) ^ 53 < 2 ^ 1024" by simp
  ultimately show ?thesis by (simp add: double_result_def)
qed

lemma double_whole:
  assumes "whole x" and "\<bar>x\<bar> \<le> 2 ^ 53"
  shows "double_result (fl x) = Returns x"
  using fl_whole[OF assms] double_result_small[OF assms(2)] by simp

section \<open>Properties of vial rounding\<close>





lemma add_vials_nonpos: "r \<le> 0 \<Longrightarrow> add_vials m r t = Some (r, t)"
  by (subst add_vials.simps) simp


text \<open>A loop that makes no progress: the remaining dose is positive and stays what it is.\<close>

lemma add_vials_some_imp:
  assumes "add_vials m r t = Some y"
  shows "\<not> (0 < r \<and> fl (r - m) = r)"
proof (rule add_vials.raw_induct[where P = "\<lambda>m r t y. \<not> (0 < r \<and> fl (r - m) = r)", OF _ assms])
  fix f :: "real \<Rightarrow> real \<Rightarrow> real \<Rightarrow> (real \<times> real) option" and m r t :: real and y
  assume ih: "\<And>a b c z. f a b c = Some z \<Longrightarrow> \<not> (0 < b \<and> fl (b - a) = b)"
    and eq: "(if 0 < r then if fl (r - m) \<le> 0 then Some (fl (r - m), fl (t + m))
               else f m (fl (r - m)) (fl (t + m))
              else Some (r, t)) = Some y"
  show "\<not> (0 < r \<and> fl (r - m) = r)"
  proof
    assume s: "0 < r \<and> fl (r - m) = r"
    then have "f m r (fl (t + m)) = Some y" using eq by simp
    then have "\<not> (0 < r \<and> fl (r - m) = r)" by (rule ih)
    then show False using s by simp
  qed
qed

lemma add_vials_stuck: "0 < r \<Longrightarrow> fl (r - m) = r \<Longrightarrow> add_vials m r t = None"
  using add_vials_some_imp[of m r t] by (cases "add_vials m r t") auto



lemma sorted_vials_single: "sorted_vials [v] = [v]"
  by (simp add: sorted_vials_def)


lemma roundToVials_single_stuck:
  assumes "0 < d" and "fl (d - m) = d"
  shows "roundToVials d [vial m] = Diverges"
  using add_vials_stuck[OF assms]
  by (simp add: roundToVials_def sorted_vials_single vial_def)


lemma roundToVials_nonpos:
  assumes "d \<le> 0"
  shows "roundToVials d vs = Returns 0"
proof (cases "sorted_vials vs")
  case Nil
  then show ?thesis using assms by (simp add: roundToVials_def double_result_def)
next
  case (Cons a as)
  then show ?thesis using assms by (simp add: roundToVials_def add_vials_nonpos double_result_def)
qed





text \<open>
  The other conditions are needed as well. A dose of \<open>10 ^ 17\<close> mg with vials of 1 mg:
  subtracting 1 from \<open>10 ^ 17\<close> rounds back to \<open>10 ^ 17\<close>, so the loop makes no progress and
  the call does not return. With a vial of 0 mg it makes no progress either.
\<close>

theorem roundToVials_large_dose_diverges:
  "roundToVials 100000000000000000 [vial 1] = Diverges"
proof (rule roundToVials_single_stuck)
  show "fl (100000000000000000 - 1) = (100000000000000000::real)"
    by (rule fl_eq[where e = 56 and k = 6250000000000000]) (simp_all add: pow2_def)
qed simp

theorem roundToVials_zero_vial_diverges:
  "roundToVials 390 [vial 0] = Diverges"
proof (rule roundToVials_single_stuck)
  show "fl (390 - 0) = (390::real)" using fl_of_int[of 390] by simp
qed simp

section \<open>Properties of the dose calculation\<close>

lemma extract_no_notes [simp]:
  "extractMaintenanceIntervalFromNotes rx None i = i"
  by (simp add: extractMaintenanceIntervalFromNotes_def)

lemma calculateAdministeredDose_mg_per_kg:
  assumes "dose_type (dose_schema n) = mg_per_kg"
    and "includes_str (toLowerCase (dose_unit (maintenance (dose_schema n)))) ''kg''"
    and "loading (dose_schema n) = None"
    and "extractMaintenanceIntervalFromNotes rx (dose_notes (dose_schema n))
           (interval_days (dose_schema n)) = interval_days (dose_schema n)"
  shows "calculateAdministeredDose rx n a =
           obind (js_div 365 (interval_days (dose_schema n)))
             (\<lambda>admins. Returns (dose_value (maintenance (dose_schema n))
                                 * weight_kg_of (avg_weight_kg a) * admins
                                 * rdi_of (relative_dose_intensity a)))"
  using assms
  by (simp add: calculateAdministeredDose_def Let_def effective_type_def dose_per_admin_mg_def
      loading_dose_mg_def js_div_def)

lemma kg_unit: "includes_str (toLowerCase ''mg/kg'') ''kg''"
  by (simp add: toLowerCase_def lower_char_def)

text \<open>
  The dosing example: 6 mg/kg at 70 kg is 420 mg per administration, every 21 days, with
  a relative dose intensity of 1.0: 7300 mg per patient-year.
\<close>

lemma calculateAdministeredDose_example:
  "calculateAdministeredDose no_patterns (example_node ''n1'' None None None ''r1'')
     example_assumptions = Returns 7300"
  by (simp add: calculateAdministeredDose_mg_per_kg example_node_def example_dose_schema_def
       example_assumptions_def kg_unit js_div_def)

text \<open>
  Claim C6 says that for a \<open>mg_per_kg\<close> node with a unit containing \<open>kg\<close>, no loading dose
  and no interval override the annual administered dose is the maintenance value times
  the weight times \<open>365 / interval_days\<close> times the relative dose intensity. With a
  relative dose intensity of 0 that product is 0; the code reads \<open>relative_dose_intensity || 1.0\<close>
  and returns the dose of intensity 1.0.
\<close>

theorem calculateAdministeredDose_zero_rdi:
  "calculateAdministeredDose no_patterns (example_node ''n1'' None None None ''r1'')
     (example_assumptions\<lparr>relative_dose_intensity := Some 0\<rparr>) = Returns 7300"
  by (simp add: calculateAdministeredDose_mg_per_kg example_node_def example_dose_schema_def
       example_assumptions_def kg_unit js_div_def)


lemma obind_Returns_iff:
  "obind m f = Returns y \<longleftrightarrow> (\<exists>x. m = Returns x \<and> f x = Returns y)"
  by (cases m) auto







lemma calculateDispensedDose_chain:
  assumes "map_of (vial_sizes a) (route n) = Some vs" and "vs \<noteq> []"
    and "extractMaintenanceIntervalFromNotes rx (dose_notes (dose_schema n))
           (interval_days (dose_schema n)) = i"
    and "loading_admins_of (loading (dose_schema n)) = la"
    and "double_div 365 i = Returns ma" and "double_add ma la = Returns tot"
    and "double_div adm tot = Returns per"
  shows "calculateDispensedDose rx n a adm
           = obind (roundToVials per vs) (\<lambda>disp. double_mul disp tot)"
  using assms by (simp add: calculateDispensedDose_def Let_def)

lemma node_every_facts:
  "route (node_every d) = IV"
  "extractMaintenanceIntervalFromNotes rx (dose_notes (dose_schema (node_every d)))
     (interval_days (dose_schema (node_every d))) = d"
  "loading_admins_of (loading (dose_schema (node_every d))) = 0"
  by (simp_all add: node_every_def example_node_def example_dose_schema_def
      loading_admins_of_def)

lemma negative_repeats_node_facts:
  "route negative_repeats_node = IV"
  "extractMaintenanceIntervalFromNotes rx (dose_notes (dose_schema negative_repeats_node))
     (interval_days (dose_schema negative_repeats_node)) = 365"
  "loading_admins_of (loading (dose_schema negative_repeats_node)) = - 3"
  by (simp_all add: negative_repeats_node_def example_node_def example_dose_schema_def
      loading_admins_of_def)

lemma one_vial_facts:
  "map_of (vial_sizes (one_vial_assumptions mg)) IV = Some [vial mg]"
  "largest_vial_mg [vial mg] = mg"
  by (simp_all add: one_vial_assumptions_def example_assumptions_def largest_vial_mg_def vial_def)








text \<open>
  The conditions added to Claim C10 are each needed. A loading dose with \<open>repeats = -3\<close>
  and one administration a year give \<open>-2\<close> administrations: an administered dose of 100 mg
  is \<open>-50\<close> mg per administration, no vial, and 0 mg dispensed.
\<close>

theorem dispensed_negative_repeats:
  "calculateDispensedDose no_patterns negative_repeats_node (one_vial_assumptions 600) 100
     = Returns 0"
proof -
  have d1: "double_div 365 365 = Returns 1"
    using double_whole[of 1] by (simp add: double_div_def)
  have d2: "double_add 1 (- 3) = Returns (- 2)"
    using double_whole[of "- 2"] by (simp add: double_add_def)
  have d3: "double_div 100 (- 2) = Returns (- 50)"
    using double_whole[of "- 50"] by (simp add: double_div_def)
  have r: "roundToVials (- 50) [vial 600] = Returns 0"
    by (rule roundToVials_nonpos) simp
  have d4: "double_mul 0 (- 2) = Returns 0"
    by (simp add: double_mul_def double_result_def)
  have "calculateDispensedDose no_patterns negative_repeats_node (one_vial_assumptions 600) 100
     = obind (roundToVials (- 50) [vial 600]) (\<lambda>disp. double_mul disp (- 2))"
    by (rule calculateDispensedDose_chain[OF _ _ _ _ d1 d2 d3])
      (simp_all add: negative_repeats_node_facts one_vial_facts)
  then show ?thesis unfolding r by (simp only: obind.simps d4)
qed

lemma zero_cycle_interval:
  "interval_days (dose_schema zero_cycle_node) = 21"
  "extractMaintenanceIntervalFromNotes zero_cycle_patterns
     (dose_notes (dose_schema zero_cycle_node)) 21 = 0"
  by (simp_all add: zero_cycle_node_def zero_cycle_patterns_def no_patterns_def example_node_def
      example_dose_schema_def extractMaintenanceIntervalFromNotes_def diverges_from_def
      toLowerCase_def lower_char_def Let_def)

text \<open>
  The interval that counts is the one in force: with \<open>interval_days = 21\<close> and notes that give
  a cycle of 0 days, the administrations per year are not finite and no dose is returned.
\<close>

theorem dispensed_zero_interval_from_notes:
  "interval_days (dose_schema zero_cycle_node) = 21
   \<and> calculateDispensedDose zero_cycle_patterns zero_cycle_node (one_vial_assumptions 600) 2100
       = NotFinite"
proof -
  have r: "route zero_cycle_node = IV"
    by (simp add: zero_cycle_node_def example_node_def)
  show ?thesis
    by (simp add: calculateDispensedDose_def Let_def zero_cycle_interval r one_vial_facts
        double_div_def vial_def)
qed

text \<open>With a vial of 0 mg the rounding never returns.\<close>

theorem dispensed_zero_vial_diverges:
  "calculateDispensedDose no_patterns (node_every 73) (one_vial_assumptions 0) 2100 = Diverges"
proof -
  have d1: "double_div 365 73 = Returns 5"
    using double_whole[of 5] by (simp add: double_div_def)
  have d2: "double_add 5 0 = Returns 5"
    using double_whole[of 5] by (simp add: double_add_def)
  have d3: "double_div 2100 5 = Returns 420"
    using double_whole[of 420] by (simp add: double_div_def)
  have r: "roundToVials 420 [vial 0] = Diverges"
  proof (rule roundToVials_single_stuck)
    show "fl (420 - 0) = (420::real)" using fl_of_int[of 420] by simp
  qed simp
  have "calculateDispensedDose no_patterns (node_every 73) (one_vial_assumptions 0) 2100
     = obind (roundToVials 420 [vial 0]) (\<lambda>disp. double_mul disp 5)"
    by (rule calculateDispensedDose_chain[OF _ _ _ _ d1 d2 d3])
      (simp_all add: node_every_facts one_vial_facts)
  then show ?thesis unfolding r by (simp only: obind.simps)
qed

section \<open>Properties of the cohort allocation\<close>

lemma obind_Throws_iff:
  "obind m f = Throws e \<longleftrightarrow> m = Throws e \<or> (\<exists>x. m = Returns x \<and> f x = Throws e)"
  by (cases m) auto

lemma allocateCohorts_Returns_iff:
  "allocateCohorts tm a cfg = Returns res \<longleftrightarrow>
     (\<exists>inp cs. allocation_inputs tm a cfg = Returns inp
        \<and> collect (allocate_path a cfg inp) (unique_paths (nodes tm)) = Returns cs
        \<and> res = allocation_result cfg inp cs)"
  by (auto simp: allocateCohorts_def obind_Returns_iff)

lemma validateShares_valid_values:
  assumes "valid (fst (validateShares shares d cfg))"
  shows "\<forall>e \<in> set shares. snd e \<noteq> NaN \<and> 0 \<le> num_value (snd e) \<and> num_value (snd e) \<le> 1"
proof -
  have "concat (map (share_errors d) shares) = []"
    using assms by (auto simp: validateShares_def Let_def split: if_splits)
  then show ?thesis unfolding share_errors_all_empty_iff .
qed

lemma validateShares_normalized_cases:
  assumes "valid (fst (validateShares shares d cfg))"
  shows "normalized_value (fst (validateShares shares d cfg)) = Some shares
       \<or> normalized_value (fst (validateShares shares d cfg))
            = Some (renormalize shares (share_total shares))"
  using assms by (auto simp: validateShares_def Let_def split: if_splits)

lemma share_total_nonneg:
  assumes "\<forall>e \<in> set shares. 0 \<le> num_value (snd e)"
  shows "0 \<le> share_total shares"
  unfolding share_total_def using assms by (intro sum_list_nonneg) auto

lemma good_renormalize:
  assumes v: "\<forall>e \<in> set shares. 0 \<le> num_value (snd e)"
    and n: "\<forall>e \<in> set (renormalize shares (share_total shares)). snd e \<noteq> NaN"
  shows "good_shares (renormalize shares (share_total shares))"
proof (cases "share_total shares = 0")
  case True
  then show ?thesis using n by (cases shares) (auto simp: renormalize_def share_div_def good_shares_def)
next
  case False
  then have "0 < share_total shares" using share_total_nonneg[OF v] by simp
  then show ?thesis using v by (auto simp: renormalize_def share_div_def good_shares_def)
qed

lemma normalize_dimension_good:
  assumes "normalize_dimension name uniq raw cfg = Returns r"
  shows "good_shares (fst r)"
proof (cases "uniq \<noteq> [] \<and> raw \<noteq> None")
  case True
  let ?sh = "filterSharesForDimension (the raw) uniq"
  let ?vr = "validateShares ?sh name cfg"
  let ?m = "case normalized_value (fst ?vr) of None \<Rightarrow> [] | Some m \<Rightarrow> m"
  from assms True have v: "valid (fst ?vr)" and nn: "\<forall>e \<in> set ?m. snd e \<noteq> NaN"
    and r: "fst r = ?m"
    by (auto simp: normalize_dimension_def Let_def obind_Returns_iff throwIfInvalid_def
        split: if_splits)
  have vals: "\<forall>e \<in> set ?sh. snd e \<noteq> NaN \<and> 0 \<le> num_value (snd e) \<and> num_value (snd e) \<le> 1"
    using validateShares_valid_values[OF v] .
  from validateShares_normalized_cases[OF v] show ?thesis
  proof
    assume "normalized_value (fst ?vr) = Some ?sh"
    then show ?thesis using vals r by (simp add: good_shares_def)
  next
    assume e: "normalized_value (fst ?vr) = Some (renormalize ?sh (share_total ?sh))"
    then show ?thesis using good_renormalize[of ?sh] vals nn r by simp
  qed
next
  case False
  then show ?thesis using assms
    by (auto simp: normalize_dimension_def Let_def good_shares_def split: if_splits)
qed

lemma allocation_inputs_facts:
  assumes "allocation_inputs tm a cfg = Returns inp"
  shows "0 \<le> in_treated_pool inp" (is ?A)
    and "good_shares (in_subtype_shares inp)" (is ?B)
    and "good_shares (in_setting_shares inp)" (is ?C)
    and "good_shares (in_line_shares inp)" (is ?D)
proof -
  let ?sel = "select_base_pool (population_model cfg) a"
  from assms obtain sub sett lin where
    pv: "valid (validatePopulation (Num (fst ?sel)) ''base_pool'' cfg)"
    and rv: "valid (validateRate (treated_rate a) ''treated_rate'')"
    and sub: "normalize_dimension ''subtype_shares'' (unique_keys subtype_key (nodes tm))
               (subtype_shares a) cfg = Returns sub"
    and sett: "normalize_dimension ''setting_shares'' (unique_keys setting_key (nodes tm))
               (case setting_shares a of None \<Rightarrow> stage_shares a | Some m \<Rightarrow> Some m) cfg
               = Returns sett"
    and lin: "normalize_dimension ''line_shares'' (unique_keys line_key (nodes tm))
               (line_shares a) cfg = Returns lin"
    and inp: "in_treated_pool inp = fst ?sel * num_value (treated_rate a)"
      "in_subtype_shares inp = fst sub" "in_setting_shares inp = fst sett"
      "in_line_shares inp = fst lin"
    by (auto simp: allocation_inputs_def Let_def obind_Returns_iff throwIfInvalid_def
        split: if_splits)
  have "0 \<le> fst ?sel"
    using pv by (auto simp: validatePopulation_def Let_def split: if_splits)
  moreover have "0 \<le> num_value (treated_rate a)"
    using rv by (cases "treated_rate a") (auto simp: validateRate_def split: if_splits)
  ultimately show ?A using inp(1) by simp
  show ?B using normalize_dimension_good[OF sub] inp by simp
  show ?C using normalize_dimension_good[OF sett] inp by simp
  show ?D using normalize_dimension_good[OF lin] inp by simp
qed

lemma apply_share_good:
  assumes "good_shares m"
  shows "\<exists>tr. apply_share nm key m w (pop, tr0) = Returns (pop * share_factor m key, tr)"
proof (cases "truthy key")
  case False
  then show ?thesis by (simp add: apply_share_def share_factor_def)
next
  case True
  show ?thesis
  proof (cases "map_of m (the key)")
    case None
    then show ?thesis using True by (simp add: apply_share_def share_factor_def)
  next
    case (Some v)
    then have "(the key, v) \<in> set m" by (rule map_of_SomeD)
    then have "v \<noteq> NaN" using assms by (auto simp: good_shares_def)
    then obtain s where "v = Num s" by (cases v) auto
    then show ?thesis using True Some by (simp add: apply_share_def share_factor_def)
  qed
qed

lemma path_population_good:
  assumes "good_shares (in_subtype_shares inp)" "good_shares (in_setting_shares inp)"
    "good_shares (in_line_shares inp)"
  shows "\<exists>tr. path_population (in_base_pool inp) rate (in_treated_pool inp)
            (in_subtype_shares inp) (in_setting_shares inp) (in_line_shares inp)
            (in_share_traces inp) p = Returns (path_pop inp p, tr)"
proof -
  let ?t0 = "[\<lparr>step = ''start'', input_population = in_base_pool inp,
                 share_applied = Some (num_value rate), share_key = Some ''treated_rate'',
                 output_population = in_treated_pool inp, trace_normalized = None,
                 trace_note = None\<rparr>]"
  obtain t1 where 1: "apply_share ''subtype_allocation'' (subtype_key p) (in_subtype_shares inp)
        (map_option normalized (subtype_shares_trace (in_share_traces inp)))
        (in_treated_pool inp, ?t0)
      = Returns (in_treated_pool inp * share_factor (in_subtype_shares inp) (subtype_key p), t1)"
    using apply_share_good[OF assms(1)] by blast
  obtain t2 where 2: "apply_share ''setting_allocation'' (setting_key p) (in_setting_shares inp)
        (map_option normalized (setting_shares_trace (in_share_traces inp)))
        (in_treated_pool inp * share_factor (in_subtype_shares inp) (subtype_key p), t1)
      = Returns (in_treated_pool inp * share_factor (in_subtype_shares inp) (subtype_key p)
                  * share_factor (in_setting_shares inp) (setting_key p), t2)"
    using apply_share_good[OF assms(2)] by blast
  obtain t3 where 3: "apply_share ''line_allocation'' (line_key p) (in_line_shares inp)
        (map_option normalized (line_shares_trace (in_share_traces inp)))
        (in_treated_pool inp * share_factor (in_subtype_shares inp) (subtype_key p)
                  * share_factor (in_setting_shares inp) (setting_key p), t2)
      = Returns (path_pop inp p, t3)"
    using apply_share_good[OF assms(3)] unfolding path_pop_def by blast
  show ?thesis
    unfolding path_population_def using 1 2 3 by simp
qed



lemma leaf_cohort_fields:
  "patients (leaf_cohort a p sh pop tr r) = pop * share_or_zero sh r"
  "path (leaf_cohort a p sh pop tr r) =
     \<lparr>subtype_key = subtype_key p, setting_key = setting_key p, line_key = line_key p,
      regimen_key = r\<rparr>"
  by (auto simp: leaf_cohort_def Let_def split: option.splits)


lemma allocate_path_Returns:
  assumes g: "good_shares (in_subtype_shares inp)" "good_shares (in_setting_shares inp)"
    "good_shares (in_line_shares inp)"
    and h: "has_regimen_shares cfg (regimen_keys p) \<or> allow_equal_regimen_split cfg"
  shows "\<exists>tr. path_population (in_base_pool inp) (treated_rate a) (in_treated_pool inp)
            (in_subtype_shares inp) (in_setting_shares inp) (in_line_shares inp)
            (in_share_traces inp) p = Returns (path_pop inp p, tr)
          \<and> allocate_path a cfg inp (k, p) =
             Returns (map (leaf_cohort a p
                (fst (path_regimen_shares k (regimen_keys p) (regimen_shares_or_empty cfg)
                        (path_pop inp p)))
                (path_pop inp p)
                (tr @ snd (path_regimen_shares k (regimen_keys p) (regimen_shares_or_empty cfg)
                        (path_pop inp p))))
              (regimen_keys p))"
proof -
  obtain tr where tr: "path_population (in_base_pool inp) (treated_rate a) (in_treated_pool inp)
            (in_subtype_shares inp) (in_setting_shares inp) (in_line_shares inp)
            (in_share_traces inp) p = Returns (path_pop inp p, tr)"
    using path_population_good[OF g] by blast
  show ?thesis
    using h tr by (intro exI[of _ tr]) (auto simp: allocate_path_def Let_def)
qed

lemma allocate_path_Throws:
  assumes g: "good_shares (in_subtype_shares inp)" "good_shares (in_setting_shares inp)"
    "good_shares (in_line_shares inp)"
    and h: "\<not> has_regimen_shares cfg (regimen_keys p)" "\<not> allow_equal_regimen_split cfg"
  shows "allocate_path a cfg inp (k, p) = Throws (NoRegimenSharesForPath k)"
proof -
  obtain tr where tr: "path_population (in_base_pool inp) (treated_rate a) (in_treated_pool inp)
            (in_subtype_shares inp) (in_setting_shares inp) (in_line_shares inp)
            (in_share_traces inp) p = Returns (path_pop inp p, tr)"
    using path_population_good[OF g] by blast
  show ?thesis
    using h tr by (simp add: allocate_path_def Let_def)
qed

lemma collect_Returns_all:
  assumes "\<forall>x \<in> set xs. \<exists>ys. f x = Returns ys"
  shows "\<exists>yss. collect f xs = Returns (concat yss) \<and> map f xs = map Returns yss"
  using assms
proof (induction xs)
  case Nil
  then show ?case by simp
next
  case (Cons x xs)
  then obtain ys where ys: "f x = Returns ys" by auto
  from Cons obtain yss where yss: "collect f xs = Returns (concat yss)" "map f xs = map Returns yss"
    by auto
  show ?case using ys yss by (intro exI[of _ "ys # yss"]) simp
qed

lemma collect_Returns_concat:
  assumes "collect f xs = Returns zs"
  shows "\<exists>yss. zs = concat yss \<and> map f xs = map Returns yss"
  using assms
proof (induction xs arbitrary: zs)
  case Nil
  then show ?case by simp
next
  case (Cons x xs)
  from Cons.prems obtain ys ws where
    z: "f x = Returns ys" and w: "collect f xs = Returns ws" and e: "zs = ys @ ws"
    by (auto simp: obind_Returns_iff)
  from Cons.IH[OF w] obtain yss where "ws = concat yss" "map f xs = map Returns yss" by blast
  then show ?case using z e by (intro exI[of _ "ys # yss"]) simp
qed

lemma collect_Throws_first:
  assumes "\<forall>x \<in> set before. \<exists>ys. f x = Returns ys" and "f x = Throws e"
  shows "collect f (before @ x # after) = Throws e"
  using assms
proof (induction before)
  case Nil
  then show ?case by simp
next
  case (Cons b bs)
  then obtain ys where "f b = Returns ys" by auto
  then show ?case using Cons by simp
qed

lemma map_of_equal_split:
  "r \<in> set regs \<Longrightarrow> share_or_zero (map (\<lambda>r. (r, c)) regs) r = c"
  by (induction regs) (auto simp: share_or_zero_def)

lemmas fixture_defs = three_regimen_map_def three_regimen_assumptions_def example_node_def
  example_assumptions_def example_dose_schema_def strict_config_def DEFAULT_ALLOCATION_CONFIG_def

lemmas allocator_defs = allocation_inputs_def select_base_pool_def validatePopulation_def
  validateRate_def unique_keys_def set_add_def normalize_dimension_def validateShares_def
  filterSharesForDimension_def throwIfInvalid_def share_total_def Let_def

lemmas path_defs = unique_paths_def add_node_path_def buildPathKey_def key_or_underscore_def

lemma three_paths:
  "unique_paths (nodes three_regimen_map) =
     [(''_|s1|_'', \<lparr>subtype_key = None, setting_key = Some ''s1'', line_key = None,
                     regimen_keys = [''r1'', ''r2'', ''r3'']\<rparr>)]"
  by (simp add: fixture_defs path_defs Let_def)

lemma three_inputs_strict:
  "\<exists>inp. allocation_inputs three_regimen_map three_regimen_assumptions strict_config = Returns inp"
  by (simp add: fixture_defs allocator_defs)

lemma three_inputs_default:
  "\<exists>inp. allocation_inputs three_regimen_map three_regimen_assumptions DEFAULT_ALLOCATION_CONFIG
      = Returns inp"
  by (simp add: fixture_defs allocator_defs)

lemma three_no_shares:
  "\<not> has_regimen_shares strict_config [''r1'', ''r2'', ''r3'']"
  "\<not> has_regimen_shares DEFAULT_ALLOCATION_CONFIG [''r1'', ''r2'', ''r3'']"
  by (simp_all add: has_regimen_shares_def regimen_shares_or_empty_def fixture_defs)

text \<open>
  Claim C5. The regimen step is reached once the base population, the treated rate and
  the share maps have passed validation (steps 1 to 4 return). There, if
  \<open>allow_equal_regimen_split\<close> is false and a path has no regimen with an entry in
  \<open>regimen_shares\<close>, \<open>allocateCohorts\<close> fails with the error that names the first such
  path. If \<open>allow_equal_regimen_split\<close> is true, \<open>allocateCohorts\<close> returns, and on every
  path without regimen shares each of the \<open>n\<close> regimens has a leaf cohort with exactly
  \<open>1/n\<close> of the path's population.
\<close>

theorem regimen_split_without_shares:
  assumes "allocation_inputs tm a cfg = Returns inp"
  shows "(\<not> allow_equal_regimen_split cfg
          \<and> unique_paths (nodes tm) = before @ (k, p) # after
          \<and> (\<forall>e \<in> set before. has_regimen_shares cfg (regimen_keys (snd e)))
          \<and> \<not> has_regimen_shares cfg (regimen_keys p)
          \<longrightarrow> allocateCohorts tm a cfg = Throws (NoRegimenSharesForPath k))
       \<and> (allow_equal_regimen_split cfg
          \<and> (k, p) \<in> set (unique_paths (nodes tm))
          \<and> \<not> has_regimen_shares cfg (regimen_keys p)
          \<longrightarrow> (\<exists>res pop tr.
                allocateCohorts tm a cfg = Returns res
              \<and> path_population (in_base_pool inp) (treated_rate a) (in_treated_pool inp)
                   (in_subtype_shares inp) (in_setting_shares inp) (in_line_shares inp)
                   (in_share_traces inp) p = Returns (pop, tr)
              \<and> (\<forall>r \<in> set (regimen_keys p). \<exists>c \<in> set (leaf_cohorts res).
                    path c = \<lparr>subtype_key = subtype_key p, setting_key = setting_key p,
                               line_key = line_key p, regimen_key = r\<rparr>
                  \<and> patients c = pop / real (length (regimen_keys p)))))"
proof (intro conjI impI)
  note g = allocation_inputs_facts(2-4)[OF assms]
  assume h: "\<not> allow_equal_regimen_split cfg
          \<and> unique_paths (nodes tm) = before @ (k, p) # after
          \<and> (\<forall>e \<in> set before. has_regimen_shares cfg (regimen_keys (snd e)))
          \<and> \<not> has_regimen_shares cfg (regimen_keys p)"
  have b: "\<forall>e \<in> set before. \<exists>ys. allocate_path a cfg inp e = Returns ys"
  proof
    fix e assume "e \<in> set before"
    then have "has_regimen_shares cfg (regimen_keys (snd e))" using h by blast
    then show "\<exists>ys. allocate_path a cfg inp e = Returns ys"
      using allocate_path_Returns[OF g, of cfg "snd e" a "fst e"] by auto
  qed
  have t: "allocate_path a cfg inp (k, p) = Throws (NoRegimenSharesForPath k)"
    using allocate_path_Throws[OF g] h by blast
  show "allocateCohorts tm a cfg = Throws (NoRegimenSharesForPath k)"
    using collect_Throws_first[OF b t, of after] h assms by (simp add: allocateCohorts_def)
next
  note g = allocation_inputs_facts(2-4)[OF assms]
  assume h: "allow_equal_regimen_split cfg
          \<and> (k, p) \<in> set (unique_paths (nodes tm))
          \<and> \<not> has_regimen_shares cfg (regimen_keys p)"
  let ?f = "allocate_path a cfg inp"
  have "\<forall>e \<in> set (unique_paths (nodes tm)). \<exists>ys. ?f e = Returns ys"
  proof
    fix e
    show "\<exists>ys. ?f e = Returns ys"
      using allocate_path_Returns[OF g, of cfg "snd e" a "fst e"] h by auto
  qed
  from collect_Returns_all[OF this] obtain yss where
    c: "collect ?f (unique_paths (nodes tm)) = Returns (concat yss)"
    and m: "map ?f (unique_paths (nodes tm)) = map Returns yss" by blast
  let ?res = "allocation_result cfg inp (concat yss)"
  have res: "allocateCohorts tm a cfg = Returns ?res"
    using assms c by (simp add: allocateCohorts_def)
  let ?n = "length (regimen_keys p)"
  let ?prs = "path_regimen_shares k (regimen_keys p) (regimen_shares_or_empty cfg) (path_pop inp p)"
  obtain tr where tr: "path_population (in_base_pool inp) (treated_rate a) (in_treated_pool inp)
            (in_subtype_shares inp) (in_setting_shares inp) (in_line_shares inp)
            (in_share_traces inp) p = Returns (path_pop inp p, tr)"
    and ap: "?f (k, p) = Returns (map (leaf_cohort a p (fst ?prs) (path_pop inp p) (tr @ snd ?prs))
              (regimen_keys p))"
    using allocate_path_Returns[OF g, of cfg p a k] h by blast
  have "?f (k, p) \<in> set (map ?f (unique_paths (nodes tm)))" using h by force
  then have "Returns (map (leaf_cohort a p (fst ?prs) (path_pop inp p) (tr @ snd ?prs))
              (regimen_keys p)) \<in> set (map Returns yss)"
    using m ap by simp
  then have inn: "map (leaf_cohort a p (fst ?prs) (path_pop inp p) (tr @ snd ?prs))
              (regimen_keys p) \<in> set yss" by auto
  have eq: "fst ?prs = map (\<lambda>r. (r, 1 / real ?n)) (regimen_keys p)"
    using h by (simp add: path_regimen_shares_def has_regimen_shares_def Let_def)
  have "\<forall>r \<in> set (regimen_keys p). \<exists>c \<in> set (leaf_cohorts ?res).
          path c = \<lparr>subtype_key = subtype_key p, setting_key = setting_key p,
                     line_key = line_key p, regimen_key = r\<rparr>
        \<and> patients c = path_pop inp p / real ?n"
  proof
    fix r assume r: "r \<in> set (regimen_keys p)"
    let ?c = "leaf_cohort a p (fst ?prs) (path_pop inp p) (tr @ snd ?prs) r"
    have "?c \<in> set (map (leaf_cohort a p (fst ?prs) (path_pop inp p) (tr @ snd ?prs))
              (regimen_keys p))" using r by simp
    then have "?c \<in> set (concat yss)" using inn unfolding set_concat by blast
    then have "?c \<in> set (leaf_cohorts ?res)" by (simp add: allocation_result_def Let_def)
    moreover have "patients ?c = path_pop inp p / real ?n"
      unfolding leaf_cohort_fields eq using map_of_equal_split[OF r] by simp
    ultimately show "\<exists>c \<in> set (leaf_cohorts ?res).
          path c = \<lparr>subtype_key = subtype_key p, setting_key = setting_key p,
                     line_key = line_key p, regimen_key = r\<rparr>
        \<and> patients c = path_pop inp p / real ?n"
      using leaf_cohort_fields(2) by blast
  qed
  then show "\<exists>res pop tr.
                allocateCohorts tm a cfg = Returns res
              \<and> path_population (in_base_pool inp) (treated_rate a) (in_treated_pool inp)
                   (in_subtype_shares inp) (in_setting_shares inp) (in_line_shares inp)
                   (in_share_traces inp) p = Returns (pop, tr)
              \<and> (\<forall>r \<in> set (regimen_keys p). \<exists>c \<in> set (leaf_cohorts res).
                    path c = \<lparr>subtype_key = subtype_key p, setting_key = setting_key p,
                               line_key = line_key p, regimen_key = r\<rparr>
                  \<and> patients c = pop / real (length (regimen_keys p)))"
    using res tr by blast
qed

theorem regimen_split_without_shares_witness:
  "allocateCohorts three_regimen_map three_regimen_assumptions strict_config
     = Throws (NoRegimenSharesForPath ''_|s1|_'')
   \<and> (\<exists>res. allocateCohorts three_regimen_map three_regimen_assumptions
               DEFAULT_ALLOCATION_CONFIG = Returns res
          \<and> (\<exists>c \<in> set (leaf_cohorts res).
                path c = \<lparr>subtype_key = None, setting_key = Some ''s1'', line_key = None,
                           regimen_key = ''r2''\<rparr>
              \<and> patients c = 900000 / 3))"
proof -
  let ?p = "\<lparr>subtype_key = None, setting_key = Some ''s1'', line_key = None,
             regimen_keys = [''r1'', ''r2'', ''r3'']\<rparr>"
  obtain i1 where i1: "allocation_inputs three_regimen_map three_regimen_assumptions strict_config
      = Returns i1" using three_inputs_strict by blast
  obtain i2 where i2: "allocation_inputs three_regimen_map three_regimen_assumptions
      DEFAULT_ALLOCATION_CONFIG = Returns i2" using three_inputs_default by blast
  have a: "allocateCohorts three_regimen_map three_regimen_assumptions strict_config
     = Throws (NoRegimenSharesForPath ''_|s1|_'')"
    using regimen_split_without_shares[OF i1, of "[]" "''_|s1|_''" ?p "[]"] three_paths
      three_no_shares(1)
    by (simp add: strict_config_def)
  have p2: "path_population (in_base_pool i2) (treated_rate three_regimen_assumptions)
      (in_treated_pool i2) (in_subtype_shares i2) (in_setting_shares i2) (in_line_shares i2)
      (in_share_traces i2) ?p = Returns (pop, tr) \<Longrightarrow> pop = 900000" for pop tr
    using i2 by (auto simp: fixture_defs allocator_defs path_population_def apply_share_def)
  have "\<exists>res pop tr.
          allocateCohorts three_regimen_map three_regimen_assumptions DEFAULT_ALLOCATION_CONFIG
            = Returns res
        \<and> path_population (in_base_pool i2) (treated_rate three_regimen_assumptions)
             (in_treated_pool i2) (in_subtype_shares i2) (in_setting_shares i2)
             (in_line_shares i2) (in_share_traces i2) ?p = Returns (pop, tr)
        \<and> (\<forall>r \<in> set (regimen_keys ?p). \<exists>c \<in> set (leaf_cohorts res).
              path c = \<lparr>subtype_key = subtype_key ?p, setting_key = setting_key ?p,
                         line_key = line_key ?p, regimen_key = r\<rparr>
            \<and> patients c = pop / real (length (regimen_keys ?p)))"
    using regimen_split_without_shares[OF i2, of _ "''_|s1|_''" ?p] three_paths
      three_no_shares(2)
    by (simp add: DEFAULT_ALLOCATION_CONFIG_def)
  then obtain res pop tr where r:
    "allocateCohorts three_regimen_map three_regimen_assumptions DEFAULT_ALLOCATION_CONFIG
            = Returns res"
    "path_population (in_base_pool i2) (treated_rate three_regimen_assumptions)
             (in_treated_pool i2) (in_subtype_shares i2) (in_setting_shares i2)
             (in_line_shares i2) (in_share_traces i2) ?p = Returns (pop, tr)"
    "\<forall>r \<in> set (regimen_keys ?p). \<exists>c \<in> set (leaf_cohorts res).
              path c = \<lparr>subtype_key = subtype_key ?p, setting_key = setting_key ?p,
                         line_key = line_key ?p, regimen_key = r\<rparr>
            \<and> patients c = pop / real (length (regimen_keys ?p))"
    by blast
  have "pop = 900000" using p2[OF r(2)] .
  then have "\<exists>c \<in> set (leaf_cohorts res).
                path c = \<lparr>subtype_key = None, setting_key = Some ''s1'', line_key = None,
                           regimen_key = ''r2''\<rparr>
              \<and> patients c = 900000 / 3"
    using r(3)[rule_format, of "''r2''"] by auto
  then show ?thesis using a r(1) by blast
qed

lemma three_returns:
  "\<exists>res. allocateCohorts three_regimen_map three_regimen_assumptions
      DEFAULT_ALLOCATION_CONFIG = Returns res \<and> leaf_cohorts res \<noteq> []"
  by (simp add: allocateCohorts_def fixture_defs allocator_defs path_defs allocate_path_def
      path_population_def apply_share_def allocation_result_def has_regimen_shares_def
      regimen_shares_or_empty_def obind_Returns_iff)








section \<open>Conservation\<close>

lemma map_fst_map_set:
  "k \<in> fst ` set es \<Longrightarrow> map fst (map_set k v es) = map fst es"
  by (induction es) auto

lemma set_map_set:
  "set (map_set k v es) \<subseteq> insert (k, v) (set es)"
  by (induction es) auto

lemma add_node_path_keys:
  "map fst (add_node_path ps n) = map fst ps
   \<or> (\<exists>k. k \<notin> fst ` set ps \<and> map fst (add_node_path ps n) = map fst ps @ [k])"
proof (cases "map_of ps (buildPathKey (subtype_key n) (setting_key n) (line_key n))")
  case None
  then have "buildPathKey (subtype_key n) (setting_key n) (line_key n) \<notin> fst ` set ps"
    by (simp add: map_of_eq_None_iff)
  moreover have "map fst (add_node_path ps n)
      = map fst ps @ [buildPathKey (subtype_key n) (setting_key n) (line_key n)]"
    using None by (simp add: add_node_path_def)
  ultimately show ?thesis by blast
next
  case (Some p)
  then have "buildPathKey (subtype_key n) (setting_key n) (line_key n) \<in> fst ` set ps"
    by (meson domI domIff map_of_eq_None_iff)
  then have "map fst (add_node_path ps n) = map fst ps"
    using Some by (simp add: add_node_path_def map_fst_map_set)
  then show ?thesis by blast
qed

lemma foldl_add_node_path_distinct:
  "distinct (map fst ps) \<Longrightarrow> distinct (map fst (foldl add_node_path ps ns))"
proof (induction ns arbitrary: ps)
  case Nil
  then show ?case by simp
next
  case (Cons n ns)
  have "distinct (map fst (add_node_path ps n))"
    using add_node_path_keys[of ps n] Cons.prems by auto
  then show ?case using Cons.IH by simp
qed

lemma unique_paths_distinct: "distinct (map fst (unique_paths ns))"
  unfolding unique_paths_def by (rule foldl_add_node_path_distinct) simp

lemma add_node_path_key_ok:
  assumes "\<forall>e \<in> set ps. key_ok e"
  shows "\<forall>e \<in> set (add_node_path ps n). key_ok e"
proof (cases "map_of ps (buildPathKey (subtype_key n) (setting_key n) (line_key n))")
  case None
  then show ?thesis using assms by (auto simp: add_node_path_def key_ok_def)
next
  case (Some p)
  let ?k = "buildPathKey (subtype_key n) (setting_key n) (line_key n)"
  have "(?k, p) \<in> set ps" using Some by (rule map_of_SomeD)
  then have "key_ok (?k, p)" using assms by blast
  then have "key_ok (?k, p\<lparr>regimen_keys := regimen_keys p @ [regimen_key n]\<rparr>)"
    by (simp add: key_ok_def)
  then show ?thesis
    using assms Some set_map_set[of ?k "p\<lparr>regimen_keys := regimen_keys p @ [regimen_key n]\<rparr>" ps]
    by (auto simp: add_node_path_def)
qed

lemma unique_paths_key_ok: "\<forall>e \<in> set (unique_paths ns). key_ok e"
proof -
  have "(\<forall>e \<in> set ps. key_ok e) \<Longrightarrow> \<forall>e \<in> set (foldl add_node_path ps ns). key_ok e" for ps
  proof (induction ns arbitrary: ps)
    case Nil
    then show ?case by simp
  next
    case (Cons n ns)
    then show ?case using add_node_path_key_ok[of ps n] by simp
  qed
  from this[of "[]"] show ?thesis unfolding unique_paths_def by simp
qed

lemma buildPathKey_dims:
  "buildPathKey a b c = buildPathKey (dim_key a) (dim_key b) (dim_key c)"
  by (simp add: buildPathKey_def key_or_underscore_def dim_key_def)

lemma unique_paths_dims_distinct:
  "distinct (map (\<lambda>e. path_dims (snd e)) (unique_paths ns))"
proof -
  have "inj_on (\<lambda>e. path_dims (snd e)) (set (unique_paths ns))"
  proof (rule inj_onI)
    fix x y assume x: "x \<in> set (unique_paths ns)" and y: "y \<in> set (unique_paths ns)"
      and e: "path_dims (snd x) = path_dims (snd y)"
    have "fst x = fst y"
      using unique_paths_key_ok[of ns] x y e
      by (metis (no_types, lifting) buildPathKey_dims key_ok_def path_dims_def prod.inject)
    moreover have "inj_on fst (set (unique_paths ns))"
      using unique_paths_distinct[of ns] by (simp add: distinct_map)
    ultimately show "x = y" using x y by (rule_tac inj_onD[of fst])
  qed
  moreover have "distinct (unique_paths ns)"
    using unique_paths_distinct[of ns] by (simp add: distinct_map)
  ultimately show ?thesis by (simp add: distinct_map)
qed

lemma set_add_facts:
  "distinct xs \<Longrightarrow> distinct (set_add xs x)"
  "set (set_add xs x) = insert x (set xs)"
  by (auto simp: set_add_def)

lemma unique_keys_facts:
  "distinct (unique_keys key ns)" (is ?A)
  "\<forall>k \<in> set (unique_keys key ns). k \<noteq> []" (is ?B)
proof -
  let ?f = "\<lambda>acc n. if truthy (key n) then set_add acc (the (key n)) else acc"
  have "distinct acc \<and> (\<forall>k \<in> set acc. k \<noteq> [])
        \<Longrightarrow> distinct (foldl ?f acc ns) \<and> (\<forall>k \<in> set (foldl ?f acc ns). k \<noteq> [])" for acc
  proof (induction ns arbitrary: acc)
    case Nil
    then show ?case by simp
  next
    case (Cons n ns)
    have "distinct (?f acc n) \<and> (\<forall>k \<in> set (?f acc n). k \<noteq> [])"
    proof (cases "key n")
      case None
      then show ?thesis using Cons.prems by simp
    next
      case (Some k)
      then show ?thesis using Cons.prems by (auto simp: set_add_facts)
    qed
    from Cons.IH[OF this] show ?case by simp
  qed
  from this[of "[]"] show ?A ?B by (simp_all add: unique_keys_def)
qed

lemma share_factor_dim_key: "share_factor m (dim_key k) = share_factor m k"
  by (simp add: share_factor_def dim_key_def)

lemma map_of_tabulate:
  "k \<in> set u \<Longrightarrow> map_of (map (\<lambda>k. (k, g k)) u) k = Some (g k)"
  by (induction u) auto

lemma filter_all_present:
  assumes "\<forall>k \<in> set u. map_of sh k \<noteq> None"
  shows "filterSharesForDimension sh u = map (\<lambda>k. (k, the (map_of sh k))) u"
  using assms unfolding filterSharesForDimension_def
  by (induction u) auto

lemma normalize_dimension_sum:
  assumes r: "normalize_dimension name u raw cfg = Returns r"
    and c: "shares_cover u raw" and ne: "u \<noteq> []" and k: "\<forall>k \<in> set u. k \<noteq> []"
  shows "sum_list (map (\<lambda>k. share_factor (fst r) (Some k)) u) = 1"
proof (cases raw)
  case None
  let ?n = "real (length u)"
  have m: "fst r = map (\<lambda>k. (k, Num (1 / ?n))) u"
    using r None ne by (auto simp: normalize_dimension_def Let_def)
  have e: "share_factor (fst r) (Some k) = 1 / ?n" if "k \<in> set u" for k
    using that k map_of_tabulate[OF that, of "\<lambda>_. Num (1 / ?n)"]
    by (simp add: share_factor_def m)
  have me: "map (\<lambda>k. share_factor (fst r) (Some k)) u = map (\<lambda>k. 1 / ?n) u"
    by (rule map_cong[OF refl]) (simp add: e)
  have "sum_list (map (\<lambda>k. share_factor (fst r) (Some k)) u) = sum_list (map (\<lambda>k. 1 / ?n) u)"
    by (simp only: me)
  also have "\<dots> = ?n * (1 / ?n)" by (simp add: sum_list_triv)
  also have "\<dots> = 1" using ne by simp
  finally show ?thesis .
next
  case (Some sh)
  let ?g = "\<lambda>k. the (map_of sh k)"
  let ?f = "map (\<lambda>k. (k, ?g k)) u"
  have pres: "\<forall>k \<in> set u. map_of sh k \<noteq> None"
    and tot: "sum_list (map (\<lambda>k. num_value (?g k)) u) = 1"
    using c Some ne by (auto simp: shares_cover_def)
  have f: "filterSharesForDimension (the raw) u = ?f"
    using filter_all_present[OF pres] Some by simp
  have st: "share_total ?f = 1"
    using tot by (simp add: share_total_def comp_def)
  let ?vr = "validateShares ?f name cfg"
  from r Some ne f have v: "valid (fst ?vr)"
    and m: "fst r = (case normalized_value (fst ?vr) of None \<Rightarrow> [] | Some m \<Rightarrow> m)"
    by (auto simp: normalize_dimension_def Let_def obind_Returns_iff throwIfInvalid_def
        split: if_splits)
  have vals: "\<forall>e \<in> set ?f. snd e \<noteq> NaN"
    using validateShares_valid_values[OF v] by blast
  have fr: "fst r = ?f \<or> fst r = map (\<lambda>k. (k, Num (num_value (?g k)))) u"
    using validateShares_normalized_cases[OF v] m st
    by (auto simp: renormalize_def share_div_def comp_def)
  have e: "share_factor (fst r) (Some k) = num_value (?g k)" if "k \<in> set u" for k
    using fr
  proof
    assume "fst r = ?f"
    then show ?thesis
      using that k map_of_tabulate[OF that, of ?g] by (simp add: share_factor_def)
  next
    assume "fst r = map (\<lambda>k. (k, Num (num_value (?g k)))) u"
    then show ?thesis
      using that k map_of_tabulate[OF that, of "\<lambda>k. Num (num_value (?g k))"]
      by (simp add: share_factor_def)
  qed
  have me: "map (\<lambda>k. share_factor (fst r) (Some k)) u = map (\<lambda>k. num_value (?g k)) u"
    by (rule map_cong[OF refl]) (simp add: e)
  show ?thesis unfolding me using tot .
qed

lemma dim_values_sum:
  assumes r: "normalize_dimension name (unique_keys key ns) raw cfg = Returns r"
    and c: "shares_cover (unique_keys key ns) raw"
  shows "sum (share_factor (fst r)) (dim_values (unique_keys key ns)) = 1"
proof (cases "unique_keys key ns = []")
  case True
  then show ?thesis by (simp add: dim_values_def share_factor_def)
next
  case False
  let ?u = "unique_keys key ns"
  have "sum (share_factor (fst r)) (Some ` set ?u)
      = sum (\<lambda>k. share_factor (fst r) (Some k)) (set ?u)"
    by (simp add: sum.reindex comp_def)
  also have "\<dots> = sum_list (map (\<lambda>k. share_factor (fst r) (Some k)) ?u)"
    using unique_keys_facts(1)[of key ns] by (simp add: sum_list_distinct_conv_sum_set)
  also have "\<dots> = 1"
    using normalize_dimension_sum[OF r c False unique_keys_facts(2)] .
  finally show ?thesis using False by (simp add: dim_values_def)
qed

lemma finite_dim_values: "finite (dim_values u)"
  by (simp add: dim_values_def)

lemma sum_triple_product:
  fixes f g h :: "'a \<Rightarrow> real"
  shows "(\<Sum>x \<in> A \<times> B \<times> C. f (fst x) * g (fst (snd x)) * h (snd (snd x)))
         = sum f A * sum g B * sum h C"
proof -
  have "sum f A * sum g B * sum h C = (\<Sum>a \<in> A. \<Sum>b \<in> B. f a * g b) * sum h C"
    by (simp only: sum_product)
  also have "\<dots> = (\<Sum>a \<in> A. \<Sum>b \<in> B. f a * g b * sum h C)"
    by (simp only: sum_distrib_right)
  also have "\<dots> = (\<Sum>a \<in> A. \<Sum>b \<in> B. \<Sum>c \<in> C. f a * g b * h c)"
    by (simp only: sum_distrib_left)
  also have "\<dots> = (\<Sum>a \<in> A. \<Sum>y \<in> B \<times> C. f a * g (fst y) * h (snd y))"
    by (simp add: sum.cartesian_product case_prod_unfold)
  also have "\<dots> = (\<Sum>x \<in> A \<times> B \<times> C. f (fst x) * g (fst (snd x)) * h (snd (snd x)))"
    by (simp add: sum.cartesian_product case_prod_unfold)
  finally show ?thesis by simp
qed

lemma add_node_path_regimens:
  assumes "\<forall>e \<in> set ps. regimen_keys (snd e) \<noteq> []"
  shows "\<forall>e \<in> set (add_node_path ps n). regimen_keys (snd e) \<noteq> []"
proof (cases "map_of ps (buildPathKey (subtype_key n) (setting_key n) (line_key n))")
  case None
  then show ?thesis using assms by (auto simp: add_node_path_def)
next
  case (Some p)
  let ?k = "buildPathKey (subtype_key n) (setting_key n) (line_key n)"
  show ?thesis
    using assms Some set_map_set[of ?k "p\<lparr>regimen_keys := regimen_keys p @ [regimen_key n]\<rparr>" ps]
    by (auto simp: add_node_path_def)
qed

lemma unique_paths_regimens: "\<forall>e \<in> set (unique_paths ns). regimen_keys (snd e) \<noteq> []"
proof -
  have "(\<forall>e \<in> set ps. regimen_keys (snd e) \<noteq> [])
        \<Longrightarrow> \<forall>e \<in> set (foldl add_node_path ps ns). regimen_keys (snd e) \<noteq> []" for ps
  proof (induction ns arbitrary: ps)
    case Nil
    then show ?case by simp
  next
    case (Cons n ns)
    then show ?case using add_node_path_regimens[of ps n] by simp
  qed
  from this[of "[]"] show ?thesis unfolding unique_paths_def by simp
qed

lemma path_pop_dims:
  "path_pop inp p =
     in_treated_pool inp
     * (share_factor (in_subtype_shares inp) (fst (path_dims p))
        * share_factor (in_setting_shares inp) (fst (snd (path_dims p)))
        * share_factor (in_line_shares inp) (snd (snd (path_dims p))))"
  by (simp add: path_pop_def path_dims_def share_factor_dim_key)

lemma path_pop_sum:
  assumes inp: "allocation_inputs tm a cfg = Returns inp"
    and x: "full_cross_product tm" and d: "dimensions_covered tm a"
  shows "sum_list (map (\<lambda>e. path_pop inp (snd e)) (unique_paths (nodes tm))) = in_treated_pool inp"
proof -
  from inp obtain sub sett lin where
    sub: "normalize_dimension ''subtype_shares'' (unique_keys subtype_key (nodes tm))
               (subtype_shares a) cfg = Returns sub"
    and sett: "normalize_dimension ''setting_shares'' (unique_keys setting_key (nodes tm))
               (case setting_shares a of None \<Rightarrow> stage_shares a | Some m \<Rightarrow> Some m) cfg
               = Returns sett"
    and lin: "normalize_dimension ''line_shares'' (unique_keys line_key (nodes tm))
               (line_shares a) cfg = Returns lin"
    and i: "in_subtype_shares inp = fst sub" "in_setting_shares inp = fst sett"
      "in_line_shares inp = fst lin"
    by (auto simp: allocation_inputs_def Let_def obind_Returns_iff throwIfInvalid_def
        split: if_splits)
  let ?A = "dim_values (unique_keys subtype_key (nodes tm))"
  let ?B = "dim_values (unique_keys setting_key (nodes tm))"
  let ?C = "dim_values (unique_keys line_key (nodes tm))"
  let ?G = "\<lambda>x. share_factor (in_subtype_shares inp) (fst x)
        * share_factor (in_setting_shares inp) (fst (snd x))
        * share_factor (in_line_shares inp) (snd (snd x))"
  let ?ds = "map (\<lambda>e. path_dims (snd e)) (unique_paths (nodes tm))"
  have s1: "sum (share_factor (in_subtype_shares inp)) ?A = 1"
    using dim_values_sum[OF sub] d i by (simp add: dimensions_covered_def)
  have s2: "sum (share_factor (in_setting_shares inp)) ?B = 1"
    using dim_values_sum[OF sett] d i by (simp add: dimensions_covered_def)
  have s3: "sum (share_factor (in_line_shares inp)) ?C = 1"
    using dim_values_sum[OF lin] d i by (simp add: dimensions_covered_def)
  have "sum_list (map (\<lambda>e. path_pop inp (snd e)) (unique_paths (nodes tm)))
      = sum_list (map (\<lambda>x. in_treated_pool inp * ?G x) ?ds)"
    by (simp add: path_pop_dims comp_def)
  also have "\<dots> = in_treated_pool inp * sum_list (map ?G ?ds)"
    by (simp only: sum_list_const_mult)
  also have "sum_list (map ?G ?ds) = sum ?G (set ?ds)"
    using unique_paths_dims_distinct[of "nodes tm"] by (rule sum_list_distinct_conv_sum_set)
  also have "set ?ds = ?A \<times> ?B \<times> ?C"
    using x unfolding full_cross_product_def .
  also have "sum ?G (?A \<times> ?B \<times> ?C) = 1"
    unfolding sum_triple_product s1 s2 s3 by simp
  finally show ?thesis by simp
qed

lemma regimen_share_sum:
  assumes ne: "regs \<noteq> []"
    and pos: "has_regimen_shares cfg regs \<longrightarrow> 0 < regimen_sum cfg regs"
  shows "\<bar>sum_list (map (share_or_zero
            (fst (path_regimen_shares k regs (regimen_shares_or_empty cfg) pop))) regs) - 1\<bar>
         \<le> 1/1000"
proof (cases "has_regimen_shares cfg regs")
  case False
  let ?n = "real (length regs)"
  have eq: "fst (path_regimen_shares k regs (regimen_shares_or_empty cfg) pop)
      = map (\<lambda>r. (r, 1 / ?n)) regs"
    using False by (simp add: path_regimen_shares_def has_regimen_shares_def Let_def)
  have me: "map (share_or_zero (map (\<lambda>r. (r, 1 / ?n)) regs)) regs = map (\<lambda>r. 1 / ?n) regs"
    by (rule map_cong[OF refl]) (simp add: map_of_equal_split)
  have "sum_list (map (share_or_zero (map (\<lambda>r. (r, 1 / ?n)) regs)) regs) = ?n * (1 / ?n)"
    unfolding me by (simp add: sum_list_triv)
  also have "\<dots> = 1" using ne by simp
  finally show ?thesis unfolding eq by simp
next
  case True
  let ?rs = "regimen_shares_or_empty cfg"
  let ?raw = "map (\<lambda>r. (r, share_or_zero ?rs r)) regs"
  let ?s = "sum_list (map snd ?raw)"
  have s: "?s = regimen_sum cfg regs" by (simp add: regimen_sum_def comp_def)
  have sp: "0 < ?s" using pos True s by simp
  have raw: "share_or_zero ?raw r = share_or_zero ?rs r" if "r \<in> set regs" for r
    using map_of_tabulate[OF that, of "share_or_zero ?rs"] by (simp add: share_or_zero_def)
  have h: "\<exists>r \<in> set regs. map_of ?rs r \<noteq> None"
    using True by (simp add: has_regimen_shares_def)
  show ?thesis
  proof (cases "\<bar>?s - 1\<bar> > 1/1000")
    case False
    have eq: "fst (path_regimen_shares k regs ?rs pop) = ?raw"
      using h False by (simp add: path_regimen_shares_def Let_def del: map_map)
    have me: "map (share_or_zero ?raw) regs = map (share_or_zero ?rs) regs"
      by (rule map_cong[OF refl]) (simp add: raw)
    have "sum_list (map (share_or_zero ?raw) regs) = regimen_sum cfg regs"
      unfolding me by (simp add: regimen_sum_def)
    then show ?thesis unfolding eq using False s by simp
  next
    case big: True
    let ?m = "map (\<lambda>r. (r, share_or_zero ?raw r / ?s)) regs"
    have eq: "fst (path_regimen_shares k regs ?rs pop) = ?m"
      using h big sp by (simp add: path_regimen_shares_def Let_def del: map_map)
    have me: "map (share_or_zero ?m) regs = map (\<lambda>r. share_or_zero ?rs r / ?s) regs"
    proof (rule map_cong[OF refl])
      fix r assume r: "r \<in> set regs"
      show "share_or_zero ?m r = share_or_zero ?rs r / ?s"
        using map_of_tabulate[OF r, of "\<lambda>r. share_or_zero ?raw r / ?s"] raw[OF r]
        by (simp add: share_or_zero_def)
    qed
    have "sum_list (map (\<lambda>r. share_or_zero ?rs r / ?s) regs)
        = sum_list (map (\<lambda>r. share_or_zero ?rs r * (1 / ?s)) regs)"
      by simp
    also have "\<dots> = sum_list (map (share_or_zero ?rs) regs) * (1 / ?s)"
      by (simp only: sum_list_mult_const)
    finally have "sum_list (map (share_or_zero ?m) regs)
        = sum_list (map (share_or_zero ?rs) regs) / ?s"
      unfolding me by simp
    also have "\<dots> = 1" using sp s by (simp add: regimen_sum_def)
    finally show ?thesis unfolding eq by simp
  qed
qed

lemma collect_sum:
  assumes "collect f xs = Returns zs"
    and "\<And>x ys. x \<in> set xs \<Longrightarrow> f x = Returns ys \<Longrightarrow> sum_list (map w ys) = W x"
  shows "sum_list (map w zs) = sum_list (map W xs)"
  using assms
proof (induction xs arbitrary: zs)
  case Nil
  then show ?case by simp
next
  case (Cons x xs)
  from Cons.prems(1) obtain ys ws where
    z: "f x = Returns ys" and w: "collect f xs = Returns ws" and e: "zs = ys @ ws"
    by (auto simp: obind_Returns_iff)
  have "sum_list (map w ys) = W x" using Cons.prems(2)[of x ys] z by simp
  moreover have "sum_list (map w ws) = sum_list (map W xs)"
    using Cons.IH[OF w] Cons.prems(2) by simp
  ultimately show ?case using e by simp
qed

lemma weighted_sum_bound:
  fixes p q :: "'a \<Rightarrow> real"
  assumes "\<forall>x \<in> set xs. 0 \<le> p x \<and> \<bar>q x - 1\<bar> \<le> c"
  shows "\<bar>sum_list (map (\<lambda>x. p x * q x) xs) - sum_list (map p xs)\<bar> \<le> c * sum_list (map p xs)"
  using assms
proof (induction xs)
  case Nil
  then show ?case by simp
next
  case (Cons x xs)
  have px: "0 \<le> p x" using Cons.prems by simp
  have "p x * q x - p x = p x * (q x - 1)" by (simp add: algebra_simps)
  then have "\<bar>p x * q x - p x\<bar> = \<bar>p x\<bar> * \<bar>q x - 1\<bar>" by (simp only: abs_mult)
  then have "\<bar>p x * q x - p x\<bar> = p x * \<bar>q x - 1\<bar>" using px by simp
  also have "\<dots> \<le> p x * c" using Cons.prems by (simp add: mult_left_mono)
  finally have 1: "\<bar>p x * q x - p x\<bar> \<le> c * p x" by (simp add: mult.commute)
  have 2: "\<bar>sum_list (map (\<lambda>x. p x * q x) xs) - sum_list (map p xs)\<bar>
      \<le> c * sum_list (map p xs)"
    using Cons by simp
  have "\<bar>(p x * q x + sum_list (map (\<lambda>x. p x * q x) xs)) - (p x + sum_list (map p xs))\<bar>
      \<le> \<bar>p x * q x - p x\<bar> + \<bar>sum_list (map (\<lambda>x. p x * q x) xs) - sum_list (map p xs)\<bar>"
    by linarith
  also have "\<dots> \<le> c * p x + c * sum_list (map p xs)" using 1 2 by linarith
  finally show ?case by (simp add: algebra_simps)
qed

lemma share_factor_nonneg: "good_shares m \<Longrightarrow> 0 \<le> share_factor m key"
proof (cases "truthy key \<and> map_of m (the key) \<noteq> None")
  case True
  assume g: "good_shares m"
  from True obtain v where v: "map_of m (the key) = Some v" by auto
  then have "(the key, v) \<in> set m" by (rule map_of_SomeD)
  then show ?thesis using g True v by (auto simp: good_shares_def share_factor_def)
next
  case False
  then show ?thesis by (auto simp: share_factor_def)
qed

lemma path_pop_nonneg:
  assumes "allocation_inputs tm a cfg = Returns inp"
  shows "0 \<le> path_pop inp p"
  unfolding path_pop_def
  using allocation_inputs_facts[OF assms]
  by (simp add: share_factor_nonneg)

lemma allocate_path_patients:
  assumes inp: "allocation_inputs tm a cfg = Returns inp"
    and r: "allocate_path a cfg inp e = Returns ys"
  shows "sum_list (map patients ys)
       = path_pop inp (snd e)
         * sum_list (map (share_or_zero (fst (path_regimen_shares (fst e) (regimen_keys (snd e))
                            (regimen_shares_or_empty cfg) (path_pop inp (snd e)))))
                     (regimen_keys (snd e)))"
proof -
  note g = allocation_inputs_facts(2-4)[OF inp]
  obtain k p where kp: "e = (k, p)" by (cases e)
  have h: "has_regimen_shares cfg (regimen_keys p) \<or> allow_equal_regimen_split cfg"
  proof (rule ccontr)
    assume "\<not> ?thesis"
    then have "allocate_path a cfg inp (k, p) = Throws (NoRegimenSharesForPath k)"
      using allocate_path_Throws[OF g] by blast
    then show False using r kp by simp
  qed
  let ?prs = "path_regimen_shares k (regimen_keys p) (regimen_shares_or_empty cfg) (path_pop inp p)"
  obtain tr where "allocate_path a cfg inp (k, p)
      = Returns (map (leaf_cohort a p (fst ?prs) (path_pop inp p) (tr @ snd ?prs)) (regimen_keys p))"
    using allocate_path_Returns[OF g h, of a k] by blast
  then have ys: "ys = map (leaf_cohort a p (fst ?prs) (path_pop inp p) (tr @ snd ?prs))
      (regimen_keys p)"
    using r kp by simp
  have "sum_list (map patients ys)
      = sum_list (map (\<lambda>r. path_pop inp p * share_or_zero (fst ?prs) r) (regimen_keys p))"
    unfolding ys by (simp add: comp_def leaf_cohort_fields)
  also have "\<dots> = path_pop inp p * sum_list (map (share_or_zero (fst ?prs)) (regimen_keys p))"
    by (simp only: sum_list_const_mult)
  finally show ?thesis using kp by simp
qed

lemmas conservation_fixture_defs = diagonal_map_def diagonal_assumptions_def covering_map_def
  covering_assumptions_def covering_config_def example_node_def example_assumptions_def
  example_dose_schema_def DEFAULT_ALLOCATION_CONFIG_def

lemmas cover_defs = dimensions_covered_def shares_cover_def regimens_cover_def regimen_sum_def
  has_regimen_shares_def regimen_shares_or_empty_def share_or_zero_def full_cross_product_def
  dim_values_def path_dims_def dim_key_def

lemma diagonal_paths:
  "unique_paths (nodes diagonal_map) =
     [(''A|s1|_'', \<lparr>subtype_key = Some ''A'', setting_key = Some ''s1'', line_key = None,
                     regimen_keys = [''r1'']\<rparr>),
      (''B|s2|_'', \<lparr>subtype_key = Some ''B'', setting_key = Some ''s2'', line_key = None,
                     regimen_keys = [''r1'']\<rparr>)]"
  by (simp add: conservation_fixture_defs path_defs Let_def)

lemma diagonal_keys:
  "unique_keys subtype_key (nodes diagonal_map) = [''A'', ''B'']"
  "unique_keys setting_key (nodes diagonal_map) = [''s1'', ''s2'']"
  "unique_keys line_key (nodes diagonal_map) = []"
  by (simp_all add: conservation_fixture_defs unique_keys_def set_add_def)

lemma diagonal_covered:
  "dimensions_covered diagonal_map diagonal_assumptions"
  "regimens_cover DEFAULT_ALLOCATION_CONFIG diagonal_map"
  unfolding dimensions_covered_def regimens_cover_def diagonal_keys diagonal_paths
  by (simp_all add: shares_cover_def has_regimen_shares_def regimen_shares_or_empty_def
      conservation_fixture_defs)

lemma covering_paths:
  "unique_paths (nodes covering_map) =
     [(''A|s1|L1'', \<lparr>subtype_key = Some ''A'', setting_key = Some ''s1'', line_key = Some ''L1'',
                     regimen_keys = [''r1'', ''r2'']\<rparr>),
      (''A|s2|L1'', \<lparr>subtype_key = Some ''A'', setting_key = Some ''s2'', line_key = Some ''L1'',
                     regimen_keys = [''r1'']\<rparr>),
      (''B|s1|L1'', \<lparr>subtype_key = Some ''B'', setting_key = Some ''s1'', line_key = Some ''L1'',
                     regimen_keys = [''r1'']\<rparr>),
      (''B|s2|L1'', \<lparr>subtype_key = Some ''B'', setting_key = Some ''s2'', line_key = Some ''L1'',
                     regimen_keys = [''r1'']\<rparr>)]"
  by (simp add: conservation_fixture_defs path_defs Let_def)

lemma covering_keys:
  "unique_keys subtype_key (nodes covering_map) = [''A'', ''B'']"
  "unique_keys setting_key (nodes covering_map) = [''s1'', ''s2'']"
  "unique_keys line_key (nodes covering_map) = [''L1'']"
  by (simp_all add: conservation_fixture_defs unique_keys_def set_add_def)

lemma covering_hypotheses:
  "full_cross_product covering_map"
  "dimensions_covered covering_map covering_assumptions"
  "regimens_cover covering_config covering_map"
  unfolding full_cross_product_def dimensions_covered_def regimens_cover_def covering_keys
    covering_paths
  by (auto simp: shares_cover_def has_regimen_shares_def regimen_shares_or_empty_def
      regimen_sum_def share_or_zero_def dim_values_def path_dims_def dim_key_def
      conservation_fixture_defs)

lemma covering_returns:
  "\<exists>res. allocateCohorts covering_map covering_assumptions covering_config = Returns res"
proof -
  obtain inp where inp: "allocation_inputs covering_map covering_assumptions covering_config
      = Returns inp"
    by (simp add: conservation_fixture_defs allocator_defs)
  note g = allocation_inputs_facts(2-4)[OF inp]
  have "allow_equal_regimen_split covering_config"
    by (simp add: conservation_fixture_defs)
  then have "\<forall>e \<in> set (unique_paths (nodes covering_map)).
      \<exists>ys. allocate_path covering_assumptions covering_config inp e = Returns ys"
    using allocate_path_Returns[OF g] by (metis prod.collapse)
  from collect_Returns_all[OF this] inp show ?thesis
    by (auto simp: allocateCohorts_def)
qed

text \<open>
  Claim C1, amended. Let \<open>allocateCohorts\<close> return. The cohorts it returns are those the
  allocation loop computed, \<open>total_allocated\<close> is the sum of their patients,
  \<open>conservation_ratio\<close> is \<open>total_allocated / treated_pool\<close> (1 when the pool is not
  positive), and a deviation beyond \<open>share_sum_tolerance\<close> only appends a warning. If the
  paths of the taxonomy are the full cross product of its subtype, setting and line
  values, every dimension in use is covered by a share map summing to 1 (or has none),
  and the regimen shares of every path that has some sum to a positive number, then the
  patients of the leaf cohorts sum to \<open>treated_pool\<close> within one part in a thousand, and
  \<open>conservation_ratio\<close> is within the tolerance of 1 whenever the tolerance is at least
  0.001.
\<close>

theorem conservation:
  assumes "allocateCohorts tm a cfg = Returns res"
  shows "total_allocated res = sum_list (map patients (leaf_cohorts res))
       \<and> conservation_ratio res
           = (if treated_pool res > 0 then total_allocated res / treated_pool res else 1)
       \<and> (\<exists>inp. allocation_inputs tm a cfg = Returns inp
             \<and> collect (allocate_path a cfg inp) (unique_paths (nodes tm))
                 = Returns (leaf_cohorts res)
             \<and> allocation_warnings res
                 = in_warnings inp
                   @ (if \<bar>conservation_ratio res - 1\<bar> > share_sum_tolerance cfg
                      then [ConservationCheck (total_allocated res) (treated_pool res)]
                      else []))
       \<and> (full_cross_product tm \<and> dimensions_covered tm a \<and> regimens_cover cfg tm \<longrightarrow>
             \<bar>total_allocated res - treated_pool res\<bar> \<le> treated_pool res / 1000
           \<and> \<bar>conservation_ratio res - 1\<bar> \<le> 1/1000
           \<and> (1/1000 \<le> share_sum_tolerance cfg \<longrightarrow>
                 \<bar>conservation_ratio res - 1\<bar> \<le> share_sum_tolerance cfg))"
proof -
  from assms obtain inp cs where
    inp: "allocation_inputs tm a cfg = Returns inp"
    and cs: "collect (allocate_path a cfg inp) (unique_paths (nodes tm)) = Returns cs"
    and res: "res = allocation_result cfg inp cs"
    unfolding allocateCohorts_Returns_iff by blast
  have f: "leaf_cohorts res = cs" "treated_pool res = in_treated_pool inp"
    "total_allocated res = sum_list (map patients cs)"
    "conservation_ratio res
       = (if treated_pool res > 0 then total_allocated res / treated_pool res else 1)"
    "allocation_warnings res
       = in_warnings inp
         @ (if \<bar>conservation_ratio res - 1\<bar> > share_sum_tolerance cfg
            then [ConservationCheck (total_allocated res) (treated_pool res)] else [])"
    unfolding res by (simp_all add: allocation_result_def Let_def)
  have bound: "\<bar>total_allocated res - treated_pool res\<bar> \<le> treated_pool res / 1000
           \<and> \<bar>conservation_ratio res - 1\<bar> \<le> 1/1000
           \<and> (1/1000 \<le> share_sum_tolerance cfg \<longrightarrow>
                 \<bar>conservation_ratio res - 1\<bar> \<le> share_sum_tolerance cfg)"
    if h: "full_cross_product tm \<and> dimensions_covered tm a \<and> regimens_cover cfg tm"
  proof -
    let ?paths = "unique_paths (nodes tm)"
    let ?p = "\<lambda>e. path_pop inp (snd e)"
    let ?q = "\<lambda>e. sum_list (map (share_or_zero (fst (path_regimen_shares (fst e)
                  (regimen_keys (snd e)) (regimen_shares_or_empty cfg) (path_pop inp (snd e)))))
                (regimen_keys (snd e)))"
    have total: "sum_list (map patients cs) = sum_list (map (\<lambda>e. ?p e * ?q e) ?paths)"
      using collect_sum[OF cs, of patients "\<lambda>e. ?p e * ?q e"] allocate_path_patients[OF inp]
      by blast
    have pq: "\<forall>e \<in> set ?paths. 0 \<le> ?p e \<and> \<bar>?q e - 1\<bar> \<le> 1/1000"
    proof
      fix e assume e: "e \<in> set ?paths"
      have "regimen_keys (snd e) \<noteq> []" using unique_paths_regimens e by blast
      moreover have "has_regimen_shares cfg (regimen_keys (snd e))
          \<longrightarrow> 0 < regimen_sum cfg (regimen_keys (snd e))"
        using h e by (simp add: regimens_cover_def)
      ultimately have "\<bar>?q e - 1\<bar> \<le> 1/1000" by (rule regimen_share_sum)
      then show "0 \<le> ?p e \<and> \<bar>?q e - 1\<bar> \<le> 1/1000"
        using path_pop_nonneg[OF inp] by simp
    qed
    have psum: "sum_list (map ?p ?paths) = in_treated_pool inp"
      using path_pop_sum[OF inp] h by simp
    have b: "\<bar>total_allocated res - treated_pool res\<bar> \<le> treated_pool res / 1000"
      using weighted_sum_bound[OF pq] unfolding f(2,3) total psum by simp
    have t0: "0 \<le> treated_pool res"
      using allocation_inputs_facts(1)[OF inp] f(2) by simp
    have r: "\<bar>conservation_ratio res - 1\<bar> \<le> 1/1000"
    proof (cases "treated_pool res > 0")
      case True
      have "conservation_ratio res - 1 = (total_allocated res - treated_pool res) / treated_pool res"
        using True f(4) by (simp add: field_simps)
      then have "\<bar>conservation_ratio res - 1\<bar>
          = \<bar>total_allocated res - treated_pool res\<bar> / treated_pool res"
        using True by (simp add: abs_divide)
      also have "\<dots> \<le> (treated_pool res / 1000) / treated_pool res"
        using b True by (simp add: divide_right_mono)
      also have "\<dots> = 1/1000" using True by simp
      finally show ?thesis .
    next
      case False
      then show ?thesis using f(4) by simp
    qed
    show ?thesis using b r by linarith
  qed
  show ?thesis using f inp cs bound by (auto simp del: abs_le_iff)
qed

theorem conservation_witness:
  "full_cross_product covering_map
   \<and> dimensions_covered covering_map covering_assumptions
   \<and> regimens_cover covering_config covering_map
   \<and> (\<exists>res. allocateCohorts covering_map covering_assumptions covering_config = Returns res
          \<and> treated_pool res = 400000
          \<and> \<bar>total_allocated res - treated_pool res\<bar> \<le> treated_pool res / 1000
          \<and> \<bar>conservation_ratio res - 1\<bar> \<le> share_sum_tolerance covering_config)"
proof -
  obtain res where r: "allocateCohorts covering_map covering_assumptions covering_config
      = Returns res"
    using covering_returns by blast
  have t: "treated_pool res = 400000"
    using r
    by (auto simp: allocateCohorts_def obind_Returns_iff allocation_result_def
        conservation_fixture_defs allocator_defs)
  have tol: "1/1000 \<le> share_sum_tolerance covering_config"
    by (simp add: conservation_fixture_defs)
  show ?thesis
    using conservation[OF r] covering_hypotheses r t tol by blast
qed

text \<open>
  Claim C1 as stated asks only that the dimension values be covered by shares summing
  to 1. A taxonomy with the paths \<open>A|s1\<close> and \<open>B|s2\<close> but not \<open>A|s2\<close> and \<open>B|s1\<close>, with
  shares of one half each, allocates half of the treated pool.
\<close>

theorem conservation_incomplete_taxonomy:
  "dimensions_covered diagonal_map diagonal_assumptions
   \<and> regimens_cover DEFAULT_ALLOCATION_CONFIG diagonal_map
   \<and> (\<exists>res. allocateCohorts diagonal_map diagonal_assumptions DEFAULT_ALLOCATION_CONFIG
               = Returns res
          \<and> treated_pool res = 1000000
          \<and> map patients (leaf_cohorts res) = [250000, 250000]
          \<and> conservation_ratio res = 1/2
          \<and> \<not> \<bar>conservation_ratio res - 1\<bar> \<le> share_sum_tolerance DEFAULT_ALLOCATION_CONFIG)"
proof -
  have "\<exists>res. allocateCohorts diagonal_map diagonal_assumptions DEFAULT_ALLOCATION_CONFIG
               = Returns res
          \<and> treated_pool res = 1000000
          \<and> map patients (leaf_cohorts res) = [250000, 250000]
          \<and> conservation_ratio res = 1/2"
    unfolding allocateCohorts_def diagonal_paths
    by (simp add: conservation_fixture_defs allocator_defs allocate_path_def
      path_population_def apply_share_def allocation_result_def has_regimen_shares_def
      regimen_shares_or_empty_def path_regimen_shares_def leaf_cohort_def share_or_zero_def)
  then show ?thesis
    using diagonal_covered by (auto simp: DEFAULT_ALLOCATION_CONFIG_def)
qed

section \<open>Properties of the forecast\<close>





lemma find_node_id:
  assumes "i \<in> set (map node_id ns)"
  shows "\<exists>n. find (\<lambda>n. node_id n = i) ns = Some n"
proof (cases "find (\<lambda>n. node_id n = i) ns")
  case None
  then show ?thesis using assms by (auto simp: find_None_iff)
next
  case (Some n)
  then show ?thesis by blast
qed

lemma demand_node_id:
  assumes "demand_node rx tm a pn = Returns ds" and "pop_node_id pn \<in> set (map node_id (nodes tm))"
  shows "map demand_node_id ds = [pop_node_id pn]"
proof -
  obtain n where "find (\<lambda>n. node_id n = pop_node_id pn) (nodes tm) = Some n"
    using find_node_id[OF assms(2)] by blast
  then show ?thesis
    using assms(1) by (auto simp: demand_node_def obind_Returns_iff)
qed






lemma or_zero_scale_truthy: "or_zero (scale_truthy x k) = or_zero x * k"
  by (cases x rule: or_zero.cases) (auto simp: scale_truthy_def)

lemma year_assumptions_fields:
  "or_zero (incidence (year_assumptions base sp t))
     = or_zero (incidence base) * (1 + incidence_cagr sp) ^ t"
  "or_zero (prevalence (year_assumptions base sp t))
     = or_zero (prevalence base) * (1 + incidence_cagr sp) ^ t"
  "treated_rate (year_assumptions base sp t)
     = num_times (treated_rate base) (treated_rate_multiplier sp)"
  "time_on_treatment_months (year_assumptions base sp t)
     = map_option (map (\<lambda>e. (fst e, snd e * tot_multiplier sp)))
         (time_on_treatment_months base)"
  by (simp_all add: year_assumptions_def Let_def or_zero_scale_truthy)



























end
